theory Spec2Isabelle
  imports Main
begin

section \<open>The lock store of \<open>origami/batch/core/mutex.py\<close>\<close>

text \<open>
  The module coordinates processes through one SQLite table \<open>mutex\<close> with the columns
  \<open>path\<close>, \<open>processor\<close>, \<open>pid\<close>, \<open>time\<close> and the primary key \<open>(path, processor)\<close>.
  A row of that table is a record; the table is the list of its rows in insertion order.
  Timestamps and the clock are integers counting microseconds (the resolution of
  \<open>datetime\<close>).
\<close>

datatype exn =
    OperationalError
  | IntegrityError
  | RuntimeError string
  | AlreadyLocked
  | LockException
  | FileNotFoundError
  | AttributeError string
  | OtherError string

record lock_record =
  path :: string
  processor :: string
  pid :: int
  time :: int

text \<open>
  What a process sees of its environment: the rows of the table, the process id that
  \<open>os.getpid()\<close> returns, the clock that \<open>datetime.datetime.now()\<close> reads, and a schedule
  \<open>busy\<close> of the store's transient failures. Each statement sent to the store consumes the
  head of the schedule; \<open>True\<close> means that this statement fails with the driver's
  \<open>OperationalError\<close> (database busy or locked) before it changes anything. An exhausted
  schedule means that the store is available.
\<close>

record world =
  rows :: "lock_record list"
  busy :: "bool list"
  clock :: int
  os_pid :: int

definition key :: "lock_record \<Rightarrow> string \<times> string" where
  "key r = (path r, processor r)"

text \<open>
  \<open>INSERT\<close> of a list of rows, row by row as \<open>executemany\<close> does: a row whose primary key
  is already in the table (or was inserted earlier by the same statement) fails with
  \<open>IntegrityError\<close>. The rows before it are in the table by then, and they stay: the
  result is the outcome together with the table as the statement leaves it.
\<close>

fun insert_rows ::
  "lock_record list \<Rightarrow> lock_record list \<Rightarrow> (exn + unit) \<times> lock_record list"
where
  "insert_rows [] tbl = (Inr (), tbl)"
| "insert_rows (r # rs) tbl =
     (if key r \<in> set (map key tbl) then (Inl IntegrityError, tbl)
      else insert_rows rs (tbl @ [r]))"

datatype stmt = Insert "lock_record list" | Delete "lock_record \<Rightarrow> bool"

text \<open>
  \<open>conn.execute(stmt)\<close> on a fresh connection. The engine is created with isolation level
  \<open>SERIALIZABLE\<close> and with two hooks: \<open>do_connect\<close> sets \<open>isolation_level = None\<close> on the
  driver's connection, and \<open>do_begin\<close> issues \<open>BEGIN EXCLUSIVE\<close> when a transaction begins.
  No method of the module begins a transaction (there is no \<open>conn.begin()\<close>), so
  \<open>do_begin\<close> does not run, and with \<open>isolation_level = None\<close> the driver opens no
  transaction of its own: every row of an \<open>executemany\<close> is committed as it is inserted.
  So a busy store raises \<open>OperationalError\<close> with the table untouched; an \<open>INSERT\<close> of
  several rows that fails at one of them leaves the rows before it in the table; a
  \<open>DELETE\<close> is a single statement and takes effect as a whole.
\<close>

definition conn_execute :: "stmt \<Rightarrow> world \<Rightarrow> (exn + unit) \<times> world" where
  "conn_execute s w =
     (case busy w of
        True # bs \<Rightarrow> (Inl OperationalError, w\<lparr>busy := bs\<rparr>)
      | _ \<Rightarrow>
         (let w1 = w\<lparr>busy := tl (busy w)\<rparr> in
          case s of
            Insert rs \<Rightarrow>
              (case insert_rows rs (rows w1) of
                 (res, tbl) \<Rightarrow> (res, w1\<lparr>rows := tbl\<rparr>))
          | Delete P \<Rightarrow> (Inr (), w1\<lparr>rows := filter (\<lambda>r. \<not> P r) (rows w1)\<rparr>)))"

section \<open>The retry helper\<close>

text \<open>
  \<^verbatim>\<open>
  def run_db_operation(operation):
      backoff = 0
      while True:
          try:
              return operation()
          except sqlalchemy.exc.OperationalError as e:
              if backoff > 8:
                  raise e
              time.sleep(0.1 * (2 ** backoff))
              backoff += 1
  \<close>
  The loop is a recursion on \<open>backoff\<close>; it ends because \<open>backoff\<close> only grows and the
  branch that continues needs \<open>backoff \<le> 8\<close>. Besides the result and the new world the
  model returns what the helper did, in order: each call of \<open>operation\<close> and each sleep
  with its length in microseconds (\<open>0.1\<close> seconds are \<open>100000\<close> microseconds). Sleeping
  advances the clock by the length of the sleep.
\<close>

datatype retry_event = Attempt | Sleep nat

definition base_delay :: nat where
  "base_delay = 100000"

definition backoff_delay :: "nat \<Rightarrow> nat" where
  "backoff_delay backoff = base_delay * 2 ^ backoff"

definition time_sleep :: "nat \<Rightarrow> world \<Rightarrow> world" where
  "time_sleep d w = w\<lparr>clock := clock w + int d\<rparr>"

function run_db_loop ::
  "(world \<Rightarrow> (exn + 'a) \<times> world) \<Rightarrow> nat \<Rightarrow> world \<Rightarrow> (exn + 'a) \<times> world \<times> retry_event list"
where
  "run_db_loop operation backoff w =
     (case operation w of
        (Inl OperationalError, w1) \<Rightarrow>
          (if backoff > 8 then (Inl OperationalError, w1, [Attempt])
           else
             (case run_db_loop operation (backoff + 1) (time_sleep (backoff_delay backoff) w1) of
                (r, w2, tr) \<Rightarrow> (r, w2, Attempt # Sleep (backoff_delay backoff) # tr)))
      | (r, w1) \<Rightarrow> (r, w1, [Attempt]))"
  by pat_completeness auto
termination
  by (relation "measure (\<lambda>(operation, backoff, w). 9 - backoff)") auto

definition run_db_operation ::
  "(world \<Rightarrow> (exn + 'a) \<times> world) \<Rightarrow> world \<Rightarrow> (exn + 'a) \<times> world \<times> retry_event list"
where
  "run_db_operation operation w = run_db_loop operation 0 w"

definition attempts :: "retry_event list \<Rightarrow> nat" where
  "attempts tr = length (filter (\<lambda>e. e = Attempt) tr)"

fun delays :: "retry_event list \<Rightarrow> nat list" where
  "delays [] = []"
| "delays (Attempt # tr) = delays tr"
| "delays (Sleep d # tr) = d # delays tr"

section \<open>DatabaseMutex\<close>

text \<open>
  \<^verbatim>\<open>
  def try_lock(self, processor, paths):
      def perform():
          conn = self._engine.connect()
          try:
              conn.execute(self._mutex_table.insert(), [
                  dict(path=p, processor=processor, pid=os.getpid(),
                       time=datetime.datetime.now()) for p in paths])
              locked = True
          except sqlalchemy.exc.IntegrityError as e:
              locked = False
          finally:
              conn.close()
          return locked
      return run_db_operation(perform)
  \<close>
  One row per element of \<open>paths\<close>, in order, all sent with one \<open>execute\<close>. The clock is
  read once for the statement. The claims concern non-empty \<open>paths\<close>; what the driver does
  with an empty parameter list is not modelled, and the theorems about \<open>try_lock\<close> for any
  \<open>paths\<close> assume \<open>paths \<noteq> []\<close>.
\<close>

definition new_record :: "string \<Rightarrow> int \<Rightarrow> int \<Rightarrow> string \<Rightarrow> lock_record" where
  "new_record proc p t pth = \<lparr>path = pth, processor = proc, pid = p, time = t\<rparr>"

definition try_lock_perform :: "string \<Rightarrow> string list \<Rightarrow> world \<Rightarrow> (exn + bool) \<times> world" where
  "try_lock_perform proc paths w =
     (case conn_execute (Insert (map (new_record proc (os_pid w) (clock w)) paths)) w of
        (Inr u, w1) \<Rightarrow> (Inr True, w1)
      | (Inl IntegrityError, w1) \<Rightarrow> (Inr False, w1)
      | (Inl e, w1) \<Rightarrow> (Inl e, w1))"

definition DatabaseMutex_try_lock ::
  "string \<Rightarrow> string list \<Rightarrow> world \<Rightarrow> (exn + bool) \<times> world \<times> retry_event list"
where
  "DatabaseMutex_try_lock proc paths w = run_db_operation (try_lock_perform proc paths) w"

text \<open>
  \<^verbatim>\<open>
  def unlock(self, processor, paths):
      def perform():
          conn = self._engine.connect()
          try:
              table = self._mutex_table
              stmt = table.delete().where(sqlalchemy.and_(
                  table.c.processor == processor,
                  table.c.path.in_(paths),
                  table.c.pid == os.getpid()))
              conn.execute(stmt)
          finally:
              conn.close()
      run_db_operation(perform)
  \<close>
\<close>

definition unlock_matches :: "string \<Rightarrow> string list \<Rightarrow> int \<Rightarrow> lock_record \<Rightarrow> bool" where
  "unlock_matches proc paths p r =
     (processor r = proc \<and> path r \<in> set paths \<and> pid r = p)"

definition unlock_perform :: "string \<Rightarrow> string list \<Rightarrow> world \<Rightarrow> (exn + unit) \<times> world" where
  "unlock_perform proc paths w =
     conn_execute (Delete (unlock_matches proc paths (os_pid w))) w"

definition DatabaseMutex_unlock ::
  "string \<Rightarrow> string list \<Rightarrow> world \<Rightarrow> (exn + unit) \<times> world \<times> retry_event list"
where
  "DatabaseMutex_unlock proc paths w = run_db_operation (unlock_perform proc paths) w"

text \<open>
  \<^verbatim>\<open>
  def clear_locks(self, age=0):
      def perform():
          conn = self._engine.connect()
          try:
              table = self._mutex_table
              if age == 0:
                  stmt = table.delete()
              else:
                  stmt = table.delete().where(sqlalchemy.and_(
                      table.c.time < datetime.datetime.now()
                          - datetime.timedelta(seconds=age)))
              conn.execute(stmt)
          finally:
              conn.close()
      run_db_operation(perform)
  \<close>
  \<open>age\<close> is a number of seconds, \<open>1000000\<close> microseconds each.
\<close>

definition older_than :: "int \<Rightarrow> int \<Rightarrow> lock_record \<Rightarrow> bool" where
  "older_than now age r = (time r < now - age * 1000000)"

definition clear_locks_perform :: "int \<Rightarrow> world \<Rightarrow> (exn + unit) \<times> world" where
  "clear_locks_perform age w =
     (if age = 0 then conn_execute (Delete (\<lambda>r. True)) w
      else conn_execute (Delete (older_than (clock w) age)) w)"

definition DatabaseMutex_clear_locks ::
  "int \<Rightarrow> world \<Rightarrow> (exn + unit) \<times> world \<times> retry_event list"
where
  "DatabaseMutex_clear_locks age w = run_db_operation (clear_locks_perform age) w"

text \<open>
  \<^verbatim>\<open>
  @contextmanager
  def lock(self, processor, paths):
      success = self.try_lock(processor, paths)
      try:
          yield success
      finally:
          if success:
              self.unlock(processor, paths)
  \<close>
  The context manager is modelled together with the body of the \<open>with\<close> statement that
  uses it: \<open>body\<close> gets the yielded flag and the world and either returns a value or raises.
  An exception of \<open>try_lock\<close> leaves before the \<open>yield\<close>; an exception of \<open>unlock\<close> in the
  \<open>finally\<close> clause replaces the outcome of the body. The third component lists the calls
  that \<open>lock\<close> itself made.
\<close>

datatype call =
    Call_try_lock string "string list"
  | Yield bool
  | Call_unlock string "string list"

definition DatabaseMutex_lock ::
  "string \<Rightarrow> string list \<Rightarrow> (bool \<Rightarrow> world \<Rightarrow> (exn + 'a) \<times> world) \<Rightarrow> world
     \<Rightarrow> (exn + 'a) \<times> world \<times> call list"
where
  "DatabaseMutex_lock proc paths body w =
     (case DatabaseMutex_try_lock proc paths w of
        (Inl e, w1, tr1) \<Rightarrow> (Inl e, w1, [Call_try_lock proc paths])
      | (Inr success, w1, tr1) \<Rightarrow>
          (case body success w1 of
             (r, w2) \<Rightarrow>
               (if success then
                  (case DatabaseMutex_unlock proc paths w2 of
                     (Inl e, w3, tr3) \<Rightarrow>
                       (Inl e, w3, [Call_try_lock proc paths, Yield success, Call_unlock proc paths])
                   | (Inr u, w3, tr3) \<Rightarrow>
                       (r, w3, [Call_try_lock proc paths, Yield success, Call_unlock proc paths]))
                else (r, w2, [Call_try_lock proc paths, Yield success]))))"

section \<open>FileMutex\<close>

text \<open>
  \<^verbatim>\<open>
  class FileMutex:
      @contextmanager
      def lock(self, processor, paths):
          if len(paths) != 1:
              raise RuntimeError("FileMutex does not support chunked locking")
          try:
              with portalocker.Lock(paths[0], "r", flags=portalocker.LOCK_EX,
                                    timeout=1, fail_when_locked=True) as f:
                  yield True
          except (portalocker.exceptions.AlreadyLocked,
                  portalocker.exceptions.LockException) as e:
              yield False
  \<close>
  Entering \<open>portalocker.Lock\<close> opens the file and takes the advisory lock; leaving it
  releases the lock. Both belong to the library, so \<open>lock\<close> takes them as the parameters
  \<open>acquire\<close> and \<open>release\<close> over any state \<open>'os\<close> of the operating system. As for
  \<open>DatabaseMutex.lock\<close>, the context manager is modelled with the body of its \<open>with\<close>
  statement. The third component lists, in order, the calls of \<open>acquire\<close> and \<open>release\<close> and
  the flag with which the body was entered.

  The \<open>yield True\<close> is inside the \<open>try\<close>. An exception of the body is thrown into the
  generator at that \<open>yield\<close>; \<open>portalocker.Lock\<close> releases the lock and lets it pass; when it
  is one of the two caught classes the generator goes on to \<open>yield False\<close>, which
  \<open>contextlib\<close> answers with a \<open>RuntimeError\<close> (the generator did not stop): the body is
  not entered a second time. An exception of the body thrown in at \<open>yield False\<close> is already
  inside the handler and propagates.
\<close>

datatype file_event = Os_acquire string | Enter_body bool | Os_release string

definition chunked_locking_msg :: string where
  "chunked_locking_msg = ''FileMutex does not support chunked locking''"

definition generator_msg :: string where
  "generator_msg = ''generator didn't stop after throw()''"

definition lock_unavailable :: "exn \<Rightarrow> bool" where
  "lock_unavailable e = (e = AlreadyLocked \<or> e = LockException)"

definition FileMutex_lock ::
  "(string \<Rightarrow> 'os \<Rightarrow> (exn + unit) \<times> 'os) \<Rightarrow> (string \<Rightarrow> 'os \<Rightarrow> 'os) \<Rightarrow>
   string \<Rightarrow> string list \<Rightarrow> (bool \<Rightarrow> 'os \<Rightarrow> (exn + 'a) \<times> 'os) \<Rightarrow> 'os
     \<Rightarrow> (exn + 'a) \<times> 'os \<times> file_event list"
where
  "FileMutex_lock acquire release proc paths body os =
     (if length paths \<noteq> 1 then (Inl (RuntimeError chunked_locking_msg), os, [])
      else
        (case acquire (paths ! 0) os of
           (Inl e, os1) \<Rightarrow>
             (if lock_unavailable e then
                (case body False os1 of
                   (r, os2) \<Rightarrow> (r, os2, [Os_acquire (paths ! 0), Enter_body False]))
              else (Inl e, os1, [Os_acquire (paths ! 0)]))
         | (Inr u, os1) \<Rightarrow>
             (case body True os1 of
                (Inl e, os2) \<Rightarrow>
                  (if lock_unavailable e then
                     (Inl (RuntimeError generator_msg), release (paths ! 0) os2,
                      [Os_acquire (paths ! 0), Enter_body True, Os_release (paths ! 0)])
                   else
                     (Inl e, release (paths ! 0) os2,
                      [Os_acquire (paths ! 0), Enter_body True, Os_release (paths ! 0)]))
              | (Inr v, os2) \<Rightarrow>
                  (Inr v, release (paths ! 0) os2,
                   [Os_acquire (paths ! 0), Enter_body True, Os_release (paths ! 0)]))))"

text \<open>
  A small operating system to run \<open>FileMutex.lock\<close> on: a map from the paths that exist to
  the state of their advisory lock. Opening a path that does not exist for reading raises
  \<open>FileNotFoundError\<close>; with \<open>fail_when_locked=True\<close> a lock that another holder has raises
  \<open>AlreadyLocked\<close>; a lock that cannot be taken for another reason raises
  \<open>LockException\<close>.
\<close>

datatype file_state = Free | Held | Held_elsewhere | Unlockable

definition portalocker_acquire ::
  "string \<Rightarrow> (string \<rightharpoonup> file_state) \<Rightarrow> (exn + unit) \<times> (string \<rightharpoonup> file_state)"
where
  "portalocker_acquire pth os =
     (case os pth of
        None \<Rightarrow> (Inl FileNotFoundError, os)
      | Some Free \<Rightarrow> (Inr (), os(pth \<mapsto> Held))
      | Some Held \<Rightarrow> (Inl AlreadyLocked, os)
      | Some Held_elsewhere \<Rightarrow> (Inl AlreadyLocked, os)
      | Some Unlockable \<Rightarrow> (Inl LockException, os))"

definition portalocker_release :: "string \<Rightarrow> (string \<rightharpoonup> file_state) \<Rightarrow> (string \<rightharpoonup> file_state)" where
  "portalocker_release pth os = os(pth \<mapsto> Free)"

section \<open>DummyMutex\<close>

text \<open>
  \<^verbatim>\<open>
  class DummyMutex:
      def try_lock(self, processor, paths):
          return True
      def unlock(self, processor, paths):
          pass
      @contextmanager
      def lock(self, processor, paths):
          yield True
  \<close>
\<close>

definition DummyMutex_try_lock :: "string \<Rightarrow> string list \<Rightarrow> 'w \<Rightarrow> (exn + bool) \<times> 'w" where
  "DummyMutex_try_lock proc paths w = (Inr True, w)"

definition DummyMutex_unlock :: "string \<Rightarrow> string list \<Rightarrow> 'w \<Rightarrow> (exn + unit) \<times> 'w" where
  "DummyMutex_unlock proc paths w = (Inr (), w)"

definition DummyMutex_lock ::
  "string \<Rightarrow> string list \<Rightarrow> (bool \<Rightarrow> 'w \<Rightarrow> (exn + 'a) \<times> 'w) \<Rightarrow> 'w \<Rightarrow> (exn + 'a) \<times> 'w"
where
  "DummyMutex_lock proc paths body w = body True w"

section \<open>Notions used to state the properties\<close>

text \<open>
  Every operation returns a triple: its result (a value or a raised exception), the world
  it leaves, and the list of what it did.
\<close>

definition result_of :: "'r \<times> 'w \<times> 't \<Rightarrow> 'r" where
  "result_of x = fst x"

definition world_of :: "'r \<times> 'w \<times> 't \<Rightarrow> 'w" where
  "world_of x = fst (snd x)"

definition trace_of :: "'r \<times> 'w \<times> 't \<Rightarrow> 't" where
  "trace_of x = snd (snd x)"

section \<open>Calling an operation on a provider\<close>

text \<open>
  A caller holds an instance of one of the three classes and calls \<open>try_lock\<close>, \<open>unlock\<close>
  or \<open>lock\<close> on it. Python looks the name up in the class of the instance; the three
  classes have no base class but \<open>object\<close>, which has none of the three names, so the call
  of a method that the class body does not define raises \<open>AttributeError\<close> before anything
  else happens. \<open>DatabaseMutex\<close> and \<open>DummyMutex\<close> define all three methods, \<open>FileMutex\<close>
  defines \<open>lock\<close> only. The three functions below are these calls: each one runs the
  method of the class, as modelled above, and keeps its result and the world it leaves.
  For \<open>FileMutex.lock\<close> the library's \<open>acquire\<close> and \<open>release\<close> act on the caller's
  environment and are parameters.
\<close>

datatype mutex_class = DatabaseMutex | FileMutex | DummyMutex

definition drop_trace :: "'r \<times> 'w \<times> 't \<Rightarrow> 'r \<times> 'w" where
  "drop_trace x = (result_of x, world_of x)"

definition call_try_lock ::
  "mutex_class \<Rightarrow> string \<Rightarrow> string list \<Rightarrow> world \<Rightarrow> (exn + bool) \<times> world"
where
  "call_try_lock c proc paths w =
     (case c of
        DatabaseMutex \<Rightarrow> drop_trace (DatabaseMutex_try_lock proc paths w)
      | FileMutex \<Rightarrow> (Inl (AttributeError ''try_lock''), w)
      | DummyMutex \<Rightarrow> DummyMutex_try_lock proc paths w)"

definition call_unlock ::
  "mutex_class \<Rightarrow> string \<Rightarrow> string list \<Rightarrow> world \<Rightarrow> (exn + unit) \<times> world"
where
  "call_unlock c proc paths w =
     (case c of
        DatabaseMutex \<Rightarrow> drop_trace (DatabaseMutex_unlock proc paths w)
      | FileMutex \<Rightarrow> (Inl (AttributeError ''unlock''), w)
      | DummyMutex \<Rightarrow> DummyMutex_unlock proc paths w)"

definition call_lock ::
  "(string \<Rightarrow> world \<Rightarrow> (exn + unit) \<times> world) \<Rightarrow> (string \<Rightarrow> world \<Rightarrow> world) \<Rightarrow>
   mutex_class \<Rightarrow> string \<Rightarrow> string list \<Rightarrow> (bool \<Rightarrow> world \<Rightarrow> (exn + 'a) \<times> world) \<Rightarrow> world
     \<Rightarrow> (exn + 'a) \<times> world"
where
  "call_lock acquire release c proc paths body w =
     (case c of
        DatabaseMutex \<Rightarrow> drop_trace (DatabaseMutex_lock proc paths body w)
      | FileMutex \<Rightarrow> drop_trace (FileMutex_lock acquire release proc paths body w)
      | DummyMutex \<Rightarrow> DummyMutex_lock proc paths body w)"

text \<open>The store refuses the next statement; the number of statements it refuses in a row.\<close>

definition store_busy :: "world \<Rightarrow> bool" where
  "store_busy w = (case busy w of True # bs \<Rightarrow> True | _ \<Rightarrow> False)"

definition leading_busy :: "world \<Rightarrow> nat" where
  "leading_busy w = length (takeWhile (\<lambda>b. b) (busy w))"

text \<open>
  Claiming \<open>paths\<close> for \<open>proc\<close> violates the primary key of the table \<open>tbl\<close>: a path is
  requested twice, or a requested pair \<open>(path, proc)\<close> is already a key of the table.
\<close>

definition violates :: "string \<Rightarrow> string list \<Rightarrow> lock_record list \<Rightarrow> bool" where
  "violates proc paths tbl =
     (\<not> distinct paths \<or> set (map (\<lambda>pth. (pth, proc)) paths) \<inter> set (map key tbl) \<noteq> {})"

section \<open>Concrete inputs\<close>

text \<open>An operation that raises the transient error whenever it is called.\<close>

definition always_raises :: "world \<Rightarrow> (exn + unit) \<times> world" where
  "always_raises w = (Inl OperationalError, w)"

text \<open>An empty table on an available store, seen by process 42.\<close>

definition w_empty :: world where
  "w_empty = \<lparr>rows = [], busy = [], clock = 5000000, os_pid = 42\<rparr>"

text \<open>
  Process 42 sees a table in which process 7 holds \<open>B\<close> for processor \<open>p\<close>; the store
  refuses the first two statements.
\<close>

definition w_held :: world where
  "w_held =
     \<lparr>rows = [\<lparr>path = ''B'', processor = ''p'', pid = 7, time = 1000000\<rparr>],
      busy = [True, True], clock = 5000000, os_pid = 42\<rparr>"

text \<open>
  On an available store, process 42 holds \<open>A\<close> and process 7 holds \<open>B\<close>, both for
  processor \<open>p\<close>; the record of \<open>B\<close> is four seconds old, that of \<open>A\<close> one second.
\<close>

definition w_two :: world where
  "w_two =
     \<lparr>rows = [\<lparr>path = ''A'', processor = ''p'', pid = 42, time = 4000000\<rparr>,
              \<lparr>path = ''B'', processor = ''p'', pid = 7, time = 1000000\<rparr>],
      busy = [], clock = 5000000, os_pid = 42\<rparr>"

text \<open>
  The world \<open>w_held\<close> after process 42 has claimed \<open>A\<close> for processor \<open>p\<close> (the store was
  busy twice, so 0.1 and 0.2 seconds have passed), and after it has released \<open>A\<close> again.
\<close>

definition w_retried :: world where
  "w_retried =
     \<lparr>rows = [\<lparr>path = ''B'', processor = ''p'', pid = 7, time = 1000000\<rparr>,
              \<lparr>path = ''A'', processor = ''p'', pid = 42, time = 5300000\<rparr>],
      busy = [], clock = 5300000, os_pid = 42\<rparr>"

definition w_released :: world where
  "w_released =
     \<lparr>rows = [\<lparr>path = ''B'', processor = ''p'', pid = 7, time = 1000000\<rparr>],
      busy = [], clock = 5300000, os_pid = 42\<rparr>"

text \<open>
  On an available store, process 42 sees a table in which process 7 holds \<open>B\<close> for
  processor \<open>p\<close>; and the same table one second later, seen by a third process 9, after
  process 42 has tried to claim \<open>A\<close>, \<open>B\<close> and \<open>C\<close>.
\<close>

definition w_clash :: world where
  "w_clash =
     \<lparr>rows = [\<lparr>path = ''B'', processor = ''p'', pid = 7, time = 1000000\<rparr>],
      busy = [], clock = 5000000, os_pid = 42\<rparr>"

definition w_third :: world where
  "w_third =
     \<lparr>rows = [\<lparr>path = ''B'', processor = ''p'', pid = 7, time = 1000000\<rparr>,
              \<lparr>path = ''A'', processor = ''p'', pid = 42, time = 5000000\<rparr>],
      busy = [], clock = 6000000, os_pid = 9\<rparr>"

text \<open>
  A library whose \<open>acquire\<close> always gets the lock and changes nothing that the caller
  sees, with its \<open>release\<close>.
\<close>

definition granting_acquire :: "string \<Rightarrow> 'w \<Rightarrow> (exn + unit) \<times> 'w" where
  "granting_acquire pth w = (Inr (), w)"

definition idle_release :: "string \<Rightarrow> 'w \<Rightarrow> 'w" where
  "idle_release pth w = w"

text \<open>A body of a \<open>with\<close> statement that raises, and one that returns the flag it got.\<close>

definition raising_body :: "bool \<Rightarrow> 'w \<Rightarrow> (exn + bool) \<times> 'w" where
  "raising_body flag w = (Inl (OtherError ''boom''), w)"

definition returning_body :: "bool \<Rightarrow> 'w \<Rightarrow> (exn + bool) \<times> 'w" where
  "returning_body flag w = (Inr flag, w)"

section \<open>Facts about the store and the retry loop\<close>

declare run_db_loop.simps [simp del]

lemma insert_rows_char:
  "insert_rows rs tbl =
     (if distinct (map key rs) \<and> set (map key rs) \<inter> set (map key tbl) = {}
      then (Inr (), tbl @ rs) else (Inl IntegrityError, snd (insert_rows rs tbl)))"
proof -
  have ok: "insert_rows rs tbl = (Inr (), tbl @ rs)"
    if "distinct (map key rs)" "set (map key rs) \<inter> set (map key tbl) = {}"
    using that by (induction rs arbitrary: tbl) auto
  have bad: "fst (insert_rows rs tbl) = Inl IntegrityError"
    if "\<not> (distinct (map key rs) \<and> set (map key rs) \<inter> set (map key tbl) = {})"
    using that
  proof (induction rs arbitrary: tbl)
    case Nil
    then show ?case by simp
  next
    case (Cons r rs)
    show ?case
    proof (cases "key r \<in> set (map key tbl)")
      case True
      then show ?thesis by simp
    next
      case False
      have "\<not> (distinct (map key rs) \<and>
          set (map key rs) \<inter> set (map key (tbl @ [r])) = {})"
        using Cons.prems False by auto
      then have "fst (insert_rows rs (tbl @ [r])) = Inl IntegrityError"
        by (rule Cons.IH)
      then show ?thesis using False by simp
    qed
  qed
  show ?thesis
  proof (cases "distinct (map key rs) \<and> set (map key rs) \<inter> set (map key tbl) = {}")
    case True
    then show ?thesis using ok by simp
  next
    case False
    have "insert_rows rs tbl = (Inl IntegrityError, snd (insert_rows rs tbl))"
      by (rule prod_eqI) (simp_all add: bad [OF False])
    then show ?thesis using False by (simp only: if_False)
  qed
qed

text \<open>The rows that a failing \<open>INSERT\<close> leaves are the old table and a prefix of the new rows.\<close>

lemma insert_rows_prefix:
  "\<exists>k\<le>length rs. snd (insert_rows rs tbl) = tbl @ take k rs"
proof (induction rs arbitrary: tbl)
  case Nil
  show ?case by simp
next
  case (Cons r rs)
  show ?case
  proof (cases "key r \<in> set (map key tbl)")
    case True
    then have "snd (insert_rows (r # rs) tbl) = tbl @ take 0 (r # rs)" by simp
    then show ?thesis by blast
  next
    case False
    from Cons.IH [of "tbl @ [r]"] obtain k where
      k: "k \<le> length rs" "snd (insert_rows rs (tbl @ [r])) = (tbl @ [r]) @ take k rs"
      by blast
    have "snd (insert_rows (r # rs) tbl) = tbl @ take (Suc k) (r # rs)"
      using False k by simp
    moreover have "Suc k \<le> length (r # rs)" using k by simp
    ultimately show ?thesis by blast
  qed
qed

lemma key_new_record [simp]: "key (new_record proc p t pth) = (pth, proc)"
  by (simp add: key_def new_record_def)

lemma map_key_new: "map key (map (new_record proc p t) paths) = map (\<lambda>pth. (pth, proc)) paths"
  by simp

lemma distinct_pairs: "distinct (map (\<lambda>pth. (pth, proc)) paths) = distinct paths"
  by (simp add: distinct_map inj_on_def)

lemma insert_new_rows:
  "insert_rows (map (new_record proc p t) paths) tbl =
     (if violates proc paths tbl
      then (Inl IntegrityError, snd (insert_rows (map (new_record proc p t) paths) tbl))
      else (Inr (), tbl @ map (new_record proc p t) paths))"
proof -
  have c: "(distinct (map key (map (new_record proc p t) paths)) \<and>
       set (map key (map (new_record proc p t) paths)) \<inter> set (map key tbl) = {}) =
      (\<not> violates proc paths tbl)"
    unfolding map_key_new distinct_pairs violates_def by blast
  show ?thesis
    by (subst insert_rows_char) (simp only: c, simp)
qed

lemma store_busy_iff: "store_busy w \<longleftrightarrow> (\<exists>bs. busy w = True # bs)"
  by (auto simp: store_busy_def split: list.splits bool.splits)

lemma leading_busy_free: "\<not> store_busy w \<Longrightarrow> leading_busy w = 0"
  by (auto simp: store_busy_def leading_busy_def split: list.splits bool.splits)

lemma leading_busy_step:
  "store_busy w \<Longrightarrow> leading_busy w = Suc (leading_busy (time_sleep d (w\<lparr>busy := tl (busy w)\<rparr>)))"
  by (auto simp: store_busy_iff leading_busy_def time_sleep_def)

lemma conn_execute_busy:
  "store_busy w \<Longrightarrow> conn_execute s w = (Inl OperationalError, w\<lparr>busy := tl (busy w)\<rparr>)"
  by (auto simp: store_busy_iff conn_execute_def)

lemma conn_execute_insert:
  "\<not> store_busy w \<Longrightarrow> conn_execute (Insert rs) w =
     (fst (insert_rows rs (rows w)),
      w\<lparr>busy := tl (busy w), rows := snd (insert_rows rs (rows w))\<rparr>)"
  by (auto simp: store_busy_def conn_execute_def Let_def split: list.splits bool.splits prod.splits)

lemma conn_execute_delete:
  "\<not> store_busy w \<Longrightarrow> conn_execute (Delete P) w =
     (Inr (), w\<lparr>busy := tl (busy w), rows := filter (\<lambda>r. \<not> P r) (rows w)\<rparr>)"
  by (auto simp: store_busy_def conn_execute_def Let_def split: list.splits bool.splits)

text \<open>One step of the loop, by the three ways an attempt can end.\<close>

lemma run_db_loop_other:
  "fst (operation w) \<noteq> Inl OperationalError \<Longrightarrow>
     run_db_loop operation backoff w = (fst (operation w), snd (operation w), [Attempt])"
  by (subst run_db_loop.simps) (auto split: prod.splits sum.splits exn.splits)

lemma run_db_loop_retry:
  "operation w = (Inl OperationalError, w1) \<Longrightarrow> backoff \<le> 8 \<Longrightarrow>
     run_db_loop operation backoff w =
       (case run_db_loop operation (backoff + 1) (time_sleep (backoff_delay backoff) w1) of
          (r, w2, tr) \<Rightarrow> (r, w2, Attempt # Sleep (backoff_delay backoff) # tr))"
  by (subst run_db_loop.simps) simp

lemma run_db_loop_give_up:
  "operation w = (Inl OperationalError, w1) \<Longrightarrow> backoff > 8 \<Longrightarrow>
     run_db_loop operation backoff w = (Inl OperationalError, w1, [Attempt])"
  by (subst run_db_loop.simps) simp

text \<open>An operation that always raises the transient error: the whole run of the loop.\<close>

lemma always_fail_loop:
  assumes "\<And>w. fst (operation w) = Inl OperationalError"
  shows "backoff \<le> 9 \<Longrightarrow>
     fst (run_db_loop operation backoff w) = Inl OperationalError \<and>
     snd (snd (run_db_loop operation backoff w)) =
       concat (map (\<lambda>k. [Attempt, Sleep (backoff_delay k)]) [backoff..<9]) @ [Attempt]"
proof (induction "9 - backoff" arbitrary: backoff w)
  case 0
  then have b: "backoff > 8" by simp
  obtain w1 where op: "operation w = (Inl OperationalError, w1)"
    using assms [of w] by (cases "operation w") auto
  show ?case using run_db_loop_give_up [of operation w w1 backoff, OF op b] 0 by simp
next
  case (Suc n)
  then have b: "backoff \<le> 8" by simp
  obtain w1 where op: "operation w = (Inl OperationalError, w1)"
    using assms [of w] by (cases "operation w") auto
  let ?rec = "run_db_loop operation (backoff + 1) (time_sleep (backoff_delay backoff) w1)"
  have ih: "fst ?rec = Inl OperationalError \<and>
     snd (snd ?rec) = concat (map (\<lambda>k. [Attempt, Sleep (backoff_delay k)]) [backoff + 1..<9]) @ [Attempt]"
    using Suc.hyps(1) [of "backoff + 1"] Suc.hyps(2) b by simp
  show ?case using run_db_loop_retry [of operation w w1 backoff, OF op b] ih b
    by (auto simp: upt_conv_Cons split: prod.splits)
qed

lemma attempts_backoff_trace:
  "attempts (concat (map (\<lambda>k. [Attempt, Sleep (f k)]) ks) @ [Attempt]) = length ks + 1"
  by (induction ks) (auto simp: attempts_def)

lemma delays_backoff_trace:
  "delays (concat (map (\<lambda>k. [Attempt, Sleep (f k)]) ks) @ [Attempt]) = map f ks"
  by (induction ks) auto

lemma backoff_delay_mono: "i \<le> j \<Longrightarrow> backoff_delay i \<le> backoff_delay j"
  by (simp add: backoff_delay_def base_delay_def power_increasing)

lemma sorted_backoff_delays: "sorted (map backoff_delay [i..<j])"
  by (simp add: sorted_iff_nth_mono backoff_delay_mono)

text \<open>
  An operation that fails with the transient error exactly when the store is busy, and
  then only consumes the head of the schedule: the loop either gives up after ten busy
  answers in a row, or ends with the outcome of the operation on a world with the same
  table and process id on which the store is available.
\<close>

lemma gated_loop:
  assumes g1: "\<And>w. store_busy w \<Longrightarrow> operation w = (Inl OperationalError, w\<lparr>busy := tl (busy w)\<rparr>)"
      and g2: "\<And>w. \<not> store_busy w \<Longrightarrow> fst (operation w) \<noteq> Inl OperationalError"
  shows "backoff \<le> 9 \<Longrightarrow> run_db_loop operation backoff w = (res, w', tr) \<Longrightarrow>
     (if 10 \<le> backoff + leading_busy w
      then res = Inl OperationalError \<and> rows w' = rows w \<and> os_pid w' = os_pid w \<and>
           attempts tr = 10 - backoff
      else (\<exists>w0. rows w0 = rows w \<and> os_pid w0 = os_pid w \<and> \<not> store_busy w0 \<and>
              operation w0 = (res, w') \<and> attempts tr = leading_busy w + 1))"
proof (induction "9 - backoff" arbitrary: backoff w res w' tr)
  case 0
  then have b: "backoff = 9" by simp
  show ?case
  proof (cases "store_busy w")
    case True
    have "run_db_loop operation backoff w = (Inl OperationalError, w\<lparr>busy := tl (busy w)\<rparr>, [Attempt])"
      using run_db_loop_give_up [of operation w _ backoff, OF g1 [OF True]] b by simp
    with 0(3) True b show ?thesis
      by (auto simp: attempts_def leading_busy_step [of w 0])
  next
    case False
    have "run_db_loop operation backoff w = (fst (operation w), snd (operation w), [Attempt])"
      using run_db_loop_other [of operation w backoff, OF g2 [OF False]] .
    with 0(3) False b show ?thesis
      by (auto simp: attempts_def leading_busy_free intro!: exI [of _ w])
  qed
next
  case (Suc n)
  then have b: "backoff \<le> 8" by simp
  show ?case
  proof (cases "store_busy w")
    case True
    let ?w2 = "time_sleep (backoff_delay backoff) (w\<lparr>busy := tl (busy w)\<rparr>)"
    obtain r2 w2' tr2 where rec: "run_db_loop operation (backoff + 1) ?w2 = (r2, w2', tr2)"
      by (cases "run_db_loop operation (backoff + 1) ?w2") auto
    have eq: "run_db_loop operation backoff w = (r2, w2', Attempt # Sleep (backoff_delay backoff) # tr2)"
      using run_db_loop_retry [of operation w _ backoff, OF g1 [OF True] b] rec by simp
    have n: "n = 9 - (backoff + 1)" using Suc.hyps(2) by simp
    have b1: "backoff + 1 \<le> 9" using b by simp
    note ih = Suc.hyps(1) [OF n b1 rec]
    have lb: "leading_busy w = Suc (leading_busy ?w2)"
      using leading_busy_step [OF True] .
    have same: "rows ?w2 = rows w" "os_pid ?w2 = os_pid w"
      by (simp_all add: time_sleep_def)
    from eq Suc.prems(2) have r: "res = r2" "w' = w2'" "tr = Attempt # Sleep (backoff_delay backoff) # tr2"
      by simp_all
    show ?thesis using ih b unfolding r lb same
      by (auto simp: attempts_def split: if_splits)
  next
    case False
    have "run_db_loop operation backoff w = (fst (operation w), snd (operation w), [Attempt])"
      using run_db_loop_other [of operation w backoff, OF g2 [OF False]] .
    with Suc.prems False b show ?thesis
      by (auto simp: attempts_def leading_busy_free intro!: exI [of _ w])
  qed
qed

lemma gated_operation:
  assumes g1: "\<And>w. store_busy w \<Longrightarrow> operation w = (Inl OperationalError, w\<lparr>busy := tl (busy w)\<rparr>)"
      and g2: "\<And>w. \<not> store_busy w \<Longrightarrow> fst (operation w) \<noteq> Inl OperationalError"
  shows "if 10 \<le> leading_busy w
      then result_of (run_db_operation operation w) = Inl OperationalError \<and>
           rows (world_of (run_db_operation operation w)) = rows w \<and>
           os_pid (world_of (run_db_operation operation w)) = os_pid w \<and>
           attempts (trace_of (run_db_operation operation w)) = 10
      else (\<exists>w0. rows w0 = rows w \<and> os_pid w0 = os_pid w \<and> \<not> store_busy w0 \<and>
              operation w0 =
                (result_of (run_db_operation operation w), world_of (run_db_operation operation w)) \<and>
              attempts (trace_of (run_db_operation operation w)) = leading_busy w + 1)"
proof -
  obtain res w' tr where r: "run_db_loop operation 0 w = (res, w', tr)"
    by (cases "run_db_loop operation 0 w") auto
  have z: "(0::nat) \<le> 9" by simp
  show ?thesis
    using gated_loop [of operation 0 w res w' tr, OF g1 g2 z r]
    unfolding run_db_operation_def r result_of_def world_of_def trace_of_def
    by (auto split: if_splits)
qed

text \<open>The three operations of \<open>DatabaseMutex\<close> on a busy and on an available store.\<close>

lemma try_lock_perform_busy:
  "store_busy w \<Longrightarrow>
     try_lock_perform proc paths w = (Inl OperationalError, w\<lparr>busy := tl (busy w)\<rparr>)"
  by (simp add: try_lock_perform_def conn_execute_busy)

lemma try_lock_perform_free:
  "\<not> store_busy w \<Longrightarrow>
     try_lock_perform proc paths w =
       (if violates proc paths (rows w)
        then (Inr False, w\<lparr>busy := tl (busy w),
                rows := snd (insert_rows (map (new_record proc (os_pid w) (clock w)) paths)
                               (rows w))\<rparr>)
        else (Inr True, w\<lparr>busy := tl (busy w),
                rows := rows w @ map (new_record proc (os_pid w) (clock w)) paths\<rparr>))"
proof -
  assume free: "\<not> store_busy w"
  let ?new = "map (new_record proc (os_pid w) (clock w)) paths"
  show ?thesis
  proof (cases "violates proc paths (rows w)")
    case True
    then have "fst (insert_rows ?new (rows w)) = Inl IntegrityError"
      by (subst insert_new_rows) simp
    with True show ?thesis
      by (simp add: try_lock_perform_def conn_execute_insert [OF free])
  next
    case False
    then have "insert_rows ?new (rows w) = (Inr (), rows w @ ?new)"
      by (subst insert_new_rows) simp
    with False show ?thesis
      by (simp add: try_lock_perform_def conn_execute_insert [OF free])
  qed
qed

lemma try_lock_perform_not_transient:
  "\<not> store_busy w \<Longrightarrow> fst (try_lock_perform proc paths w) \<noteq> Inl OperationalError"
  by (simp add: try_lock_perform_free)

lemma unlock_perform_busy:
  "store_busy w \<Longrightarrow>
     unlock_perform proc paths w = (Inl OperationalError, w\<lparr>busy := tl (busy w)\<rparr>)"
  by (simp add: unlock_perform_def conn_execute_busy)

lemma unlock_perform_free:
  "\<not> store_busy w \<Longrightarrow>
     unlock_perform proc paths w =
       (Inr (), w\<lparr>busy := tl (busy w),
          rows := filter (\<lambda>r. \<not> unlock_matches proc paths (os_pid w) r) (rows w)\<rparr>)"
  by (simp add: unlock_perform_def conn_execute_delete)

lemma unlock_perform_not_transient:
  "\<not> store_busy w \<Longrightarrow> fst (unlock_perform proc paths w) \<noteq> Inl OperationalError"
  by (simp add: unlock_perform_free)

lemma clear_locks_perform_busy:
  "store_busy w \<Longrightarrow>
     clear_locks_perform age w = (Inl OperationalError, w\<lparr>busy := tl (busy w)\<rparr>)"
  by (simp add: clear_locks_perform_def conn_execute_busy)

lemma clear_locks_perform_free:
  "\<not> store_busy w \<Longrightarrow>
     clear_locks_perform age w =
       (Inr (), w\<lparr>busy := tl (busy w),
          rows := (if age = 0 then []
                   else filter (\<lambda>r. \<not> older_than (clock w) age r) (rows w))\<rparr>)"
  by (simp add: clear_locks_perform_def conn_execute_delete)

lemma clear_locks_perform_not_transient:
  "\<not> store_busy w \<Longrightarrow> fst (clear_locks_perform age w) \<noteq> Inl OperationalError"
  by (simp add: clear_locks_perform_free)

text \<open>What each of the three operations returns and leaves, by the state of the store.\<close>

lemma try_lock_outcome:
  "if 10 \<le> leading_busy w
   then result_of (DatabaseMutex_try_lock proc paths w) = Inl OperationalError \<and>
        rows (world_of (DatabaseMutex_try_lock proc paths w)) = rows w \<and>
        os_pid (world_of (DatabaseMutex_try_lock proc paths w)) = os_pid w
   else if violates proc paths (rows w)
   then result_of (DatabaseMutex_try_lock proc paths w) = Inr False \<and>
        rows (world_of (DatabaseMutex_try_lock proc paths w)) =
          snd (insert_rows
                 (map (new_record proc (os_pid w)
                        (clock (world_of (DatabaseMutex_try_lock proc paths w)))) paths)
                 (rows w)) \<and>
        os_pid (world_of (DatabaseMutex_try_lock proc paths w)) = os_pid w
   else result_of (DatabaseMutex_try_lock proc paths w) = Inr True \<and>
        rows (world_of (DatabaseMutex_try_lock proc paths w)) =
          rows w @ map (new_record proc (os_pid w)
                         (clock (world_of (DatabaseMutex_try_lock proc paths w)))) paths \<and>
        os_pid (world_of (DatabaseMutex_try_lock proc paths w)) = os_pid w"
proof -
  let ?r = "DatabaseMutex_try_lock proc paths w"
  note g = gated_operation [of "try_lock_perform proc paths" w,
      OF try_lock_perform_busy try_lock_perform_not_transient]
  show ?thesis
  proof (cases "10 \<le> leading_busy w")
    case True
    with g show ?thesis by (simp add: DatabaseMutex_try_lock_def)
  next
    case False
    with g obtain w0 where w0: "rows w0 = rows w" "os_pid w0 = os_pid w" "\<not> store_busy w0"
      and op: "try_lock_perform proc paths w0 = (result_of ?r, world_of ?r)"
      by (auto simp: DatabaseMutex_try_lock_def)
    have res: "result_of ?r = fst (try_lock_perform proc paths w0)"
      and wld: "world_of ?r = snd (try_lock_perform proc paths w0)"
      by (simp_all add: op)
    show ?thesis
    proof (cases "violates proc paths (rows w)")
      case True
      then have "result_of ?r = Inr False"
        "rows (world_of ?r) =
           snd (insert_rows (map (new_record proc (os_pid w) (clock w0)) paths) (rows w))"
        "clock (world_of ?r) = clock w0" "os_pid (world_of ?r) = os_pid w"
        unfolding res wld using w0 by (simp_all add: try_lock_perform_free)
      with False True show ?thesis by simp
    next
      case v: False
      then have "result_of ?r = Inr True"
        "rows (world_of ?r) = rows w @ map (new_record proc (os_pid w) (clock w0)) paths"
        "clock (world_of ?r) = clock w0" "os_pid (world_of ?r) = os_pid w"
        unfolding res wld using w0 by (simp_all add: try_lock_perform_free)
      with False v show ?thesis by simp
    qed
  qed
qed

lemma try_lock_attempts:
  "attempts (trace_of (DatabaseMutex_try_lock proc paths w)) = min (leading_busy w) 9 + 1"
  using gated_operation [of "try_lock_perform proc paths" w,
      OF try_lock_perform_busy try_lock_perform_not_transient]
  by (auto simp: DatabaseMutex_try_lock_def split: if_splits)

lemma unlock_outcome:
  "if 10 \<le> leading_busy w
   then result_of (DatabaseMutex_unlock proc paths w) = Inl OperationalError \<and>
        rows (world_of (DatabaseMutex_unlock proc paths w)) = rows w \<and>
        os_pid (world_of (DatabaseMutex_unlock proc paths w)) = os_pid w
   else result_of (DatabaseMutex_unlock proc paths w) = Inr () \<and>
        rows (world_of (DatabaseMutex_unlock proc paths w)) =
          filter (\<lambda>r. \<not> unlock_matches proc paths (os_pid w) r) (rows w) \<and>
        os_pid (world_of (DatabaseMutex_unlock proc paths w)) = os_pid w"
proof -
  let ?r = "DatabaseMutex_unlock proc paths w"
  note g = gated_operation [of "unlock_perform proc paths" w,
      OF unlock_perform_busy unlock_perform_not_transient]
  show ?thesis
  proof (cases "10 \<le> leading_busy w")
    case True
    with g show ?thesis by (simp add: DatabaseMutex_unlock_def)
  next
    case False
    with g obtain w0 where w0: "rows w0 = rows w" "os_pid w0 = os_pid w" "\<not> store_busy w0"
      and op: "unlock_perform proc paths w0 = (result_of ?r, world_of ?r)"
      by (auto simp: DatabaseMutex_unlock_def)
    have res: "result_of ?r = fst (unlock_perform proc paths w0)"
      and wld: "world_of ?r = snd (unlock_perform proc paths w0)"
      by (simp_all add: op)
    have "result_of ?r = Inr ()"
      "rows (world_of ?r) = filter (\<lambda>r. \<not> unlock_matches proc paths (os_pid w) r) (rows w)"
      "os_pid (world_of ?r) = os_pid w"
      unfolding res wld using w0 by (simp_all add: unlock_perform_free)
    with False show ?thesis by simp
  qed
qed

lemma clear_locks_outcome:
  "if 10 \<le> leading_busy w
   then result_of (DatabaseMutex_clear_locks age w) = Inl OperationalError \<and>
        rows (world_of (DatabaseMutex_clear_locks age w)) = rows w
   else result_of (DatabaseMutex_clear_locks age w) = Inr () \<and>
        rows (world_of (DatabaseMutex_clear_locks age w)) =
          (if age = 0 then []
           else filter (\<lambda>r. \<not> older_than (clock (world_of (DatabaseMutex_clear_locks age w))) age r)
                  (rows w))"
proof -
  let ?r = "DatabaseMutex_clear_locks age w"
  note g = gated_operation [of "clear_locks_perform age" w,
      OF clear_locks_perform_busy clear_locks_perform_not_transient]
  show ?thesis
  proof (cases "10 \<le> leading_busy w")
    case True
    with g show ?thesis by (simp add: DatabaseMutex_clear_locks_def)
  next
    case False
    with g obtain w0 where w0: "rows w0 = rows w" "os_pid w0 = os_pid w" "\<not> store_busy w0"
      and op: "clear_locks_perform age w0 = (result_of ?r, world_of ?r)"
      by (auto simp: DatabaseMutex_clear_locks_def)
    have res: "result_of ?r = fst (clear_locks_perform age w0)"
      and wld: "world_of ?r = snd (clear_locks_perform age w0)"
      by (simp_all add: op)
    have "result_of ?r = Inr ()"
      "rows (world_of ?r) =
         (if age = 0 then [] else filter (\<lambda>r. \<not> older_than (clock w0) age r) (rows w))"
      "clock (world_of ?r) = clock w0"
      unfolding res wld using w0 by (simp_all add: clear_locks_perform_free)
    with False show ?thesis by simp
  qed
qed

text \<open>On an available store the loop is one attempt.\<close>

lemma run_db_operation_free:
  "fst (operation w) \<noteq> Inl OperationalError \<Longrightarrow>
     run_db_operation operation w = (fst (operation w), snd (operation w), [Attempt])"
  unfolding run_db_operation_def by (rule run_db_loop_other)

lemma run_db_operation_first_retry:
  assumes "fst (operation w) = Inl OperationalError"
  shows "take 2 (trace_of (run_db_operation operation w)) = [Attempt, Sleep base_delay]"
proof -
  obtain w1 where op: "operation w = (Inl OperationalError, w1)"
    using assms by (cases "operation w") auto
  have z: "(0::nat) \<le> 8" by simp
  show ?thesis
    using run_db_loop_retry [of operation w w1 0, OF op z]
    by (simp add: run_db_operation_def trace_of_def backoff_delay_def split: prod.splits)
qed

text \<open>Rows of a table that a claim does not violate are not the claimant's to unlock.\<close>

lemma filter_unlock_unviolated:
  "\<not> violates proc paths tbl \<Longrightarrow>
     filter (\<lambda>r. \<not> unlock_matches proc paths p r) tbl = tbl"
proof -
  assume v: "\<not> violates proc paths tbl"
  have "\<not> unlock_matches proc paths p r" if r: "r \<in> set tbl" for r
  proof
    assume "unlock_matches proc paths p r"
    then have "key r \<in> set (map (\<lambda>pth. (pth, proc)) paths)"
      by (auto simp: unlock_matches_def key_def)
    moreover have "key r \<in> set (map key tbl)" using r by simp
    ultimately show False using v unfolding violates_def by blast
  qed
  then show ?thesis by (simp add: filter_id_conv)
qed

lemma filter_unlock_new:
  "filter (\<lambda>r. \<not> unlock_matches proc paths p r) (map (new_record proc p t) paths) = []"
  by (auto simp: filter_empty_conv unlock_matches_def new_record_def)

text \<open>Two runs on the concrete worlds, used by the examples below.\<close>

lemma try_lock_on_w_two:
  "DatabaseMutex_try_lock ''p'' [''B'', ''C''] w_two = (Inr False, w_two, [Attempt])"
proof -
  have p: "try_lock_perform ''p'' [''B'', ''C''] w_two = (Inr False, w_two)"
    by (simp add: try_lock_perform_def conn_execute_def w_two_def new_record_def key_def)
  have f: "fst (try_lock_perform ''p'' [''B'', ''C''] w_two) \<noteq> Inl OperationalError"
    by (simp add: p)
  show ?thesis
    unfolding DatabaseMutex_try_lock_def
      run_db_operation_free [of "try_lock_perform ''p'' [''B'', ''C'']" w_two, OF f]
    by (simp add: p)
qed

lemma try_lock_perform_not_integrity:
  "fst (try_lock_perform proc paths w) \<noteq> Inl IntegrityError"
  by (cases "store_busy w") (simp_all add: try_lock_perform_busy try_lock_perform_free)

lemma try_lock_on_w_held:
  "DatabaseMutex_try_lock ''p'' [''A''] w_held =
     (Inr True, w_retried, [Attempt, Sleep 100000, Attempt, Sleep 200000, Attempt])"
  unfolding DatabaseMutex_try_lock_def run_db_operation_def
  apply (subst run_db_loop.simps)
  apply (simp add: try_lock_perform_def conn_execute_def w_held_def time_sleep_def
           backoff_delay_def base_delay_def)
  apply (subst run_db_loop.simps)
  apply (simp add: try_lock_perform_def conn_execute_def time_sleep_def
           backoff_delay_def base_delay_def)
  apply (subst run_db_loop.simps)
  apply (simp add: try_lock_perform_def conn_execute_def new_record_def key_def w_retried_def)
  done

lemma unlock_on_w_retried:
  "DatabaseMutex_unlock ''p'' [''A''] w_retried = (Inr (), w_released, [Attempt])"
proof -
  have p: "unlock_perform ''p'' [''A''] w_retried = (Inr (), w_released)"
    by (simp add: unlock_perform_def conn_execute_def w_retried_def w_released_def
          unlock_matches_def)
  have f: "fst (unlock_perform ''p'' [''A''] w_retried) \<noteq> Inl OperationalError"
    by (simp add: p)
  show ?thesis
    unfolding DatabaseMutex_unlock_def
      run_db_operation_free [of "unlock_perform ''p'' [''A'']" w_retried, OF f]
    by (simp add: p)
qed

text \<open>How the two scoped locks can end.\<close>

lemma database_lock_result:
  "result_of (DatabaseMutex_lock proc paths body w) = Inl OperationalError \<or>
   (\<exists>flag s. result_of (DatabaseMutex_lock proc paths body w) = fst (body flag s))"
proof (cases "DatabaseMutex_try_lock proc paths w")
  case (fields r1 w1 tr1)
  have r1: "r1 \<in> {Inr True, Inr False, Inl OperationalError}"
    using try_lock_outcome [of w proc paths] fields
    by (simp add: result_of_def split: if_splits)
  show ?thesis
  proof (cases r1)
    case (Inl e)
    with r1 fields show ?thesis
      by (simp add: DatabaseMutex_lock_def result_of_def)
  next
    case (Inr success)
    obtain r w2 where b: "body success w1 = (r, w2)"
      by (cases "body success w1") auto
    have rb: "r = fst (body success w1)" using b by simp
    obtain r3 w3 tr3 where u: "DatabaseMutex_unlock proc paths w2 = (r3, w3, tr3)"
      by (cases "DatabaseMutex_unlock proc paths w2") auto
    have r3: "r3 \<in> {Inr (), Inl OperationalError}"
      using unlock_outcome [of w2 proc paths] u
      by (simp add: result_of_def split: if_splits)
    have "result_of (DatabaseMutex_lock proc paths body w) = Inl OperationalError \<or>
        result_of (DatabaseMutex_lock proc paths body w) = r"
      using fields Inr b u r3
      by (auto simp: DatabaseMutex_lock_def result_of_def)
    then show ?thesis using rb by blast
  qed
qed

lemma file_lock_result:
  "(\<exists>m. result_of (FileMutex_lock acquire release proc paths body os) = Inl (RuntimeError m)) \<or>
   (\<exists>e. fst (acquire (paths ! 0) os) = Inl e \<and>
      result_of (FileMutex_lock acquire release proc paths body os) = Inl e) \<or>
   (\<exists>flag s. result_of (FileMutex_lock acquire release proc paths body os) = fst (body flag s))"
proof (cases "length paths \<noteq> 1")
  case True
  then show ?thesis by (simp add: FileMutex_lock_def result_of_def)
next
  case one: False
  obtain ra os1 where a: "acquire (paths ! 0) os = (ra, os1)"
    by (cases "acquire (paths ! 0) os") auto
  show ?thesis
  proof (cases ra)
    case (Inl e)
    show ?thesis
    proof (cases "lock_unavailable e")
      case True
      obtain r os2 where b: "body False os1 = (r, os2)"
        by (cases "body False os1") auto
      have "result_of (FileMutex_lock acquire release proc paths body os) = fst (body False os1)"
        using one a Inl True b by (simp add: FileMutex_lock_def result_of_def)
      then show ?thesis by blast
    next
      case False
      have "fst (acquire (paths ! 0) os) = Inl e \<and>
          result_of (FileMutex_lock acquire release proc paths body os) = Inl e"
        using one a Inl False by (simp add: FileMutex_lock_def result_of_def)
      then show ?thesis by blast
    qed
  next
    case (Inr u)
    obtain r os2 where b: "body True os1 = (r, os2)"
      by (cases "body True os1") auto
    have "(\<exists>m. result_of (FileMutex_lock acquire release proc paths body os) =
            Inl (RuntimeError m)) \<or>
        result_of (FileMutex_lock acquire release proc paths body os) = fst (body True os1)"
      using one a Inr b
      by (cases r) (simp_all add: FileMutex_lock_def result_of_def)
    then show ?thesis by blast
  qed
qed

section \<open>The claims\<close>

subsection \<open>C1: a claim of several paths that fails at one of them\<close>

text \<open>
  C1 says that a claim of several paths which violates the uniqueness of
  \<open>(path, processor)\<close> returns \<open>False\<close> and adds no record for any of the requested paths.
  The module sets up \<open>SERIALIZABLE\<close> and the \<open>BEGIN EXCLUSIVE\<close> hook for that, but it
  begins no transaction, and the code does not do what C1 says. Process 42 claims \<open>A\<close>,
  \<open>B\<close> and \<open>C\<close> for processor \<open>p\<close> while process 7 holds \<open>B\<close>: \<open>try_lock\<close> returns \<open>False\<close>
  after one attempt, and the record of \<open>A\<close>, inserted before the clash at \<open>B\<close>, is in the
  table. The caller was told that it holds nothing, so nothing will release it. A third
  process that then claims \<open>A\<close> alone is refused; \<open>C\<close>, which comes after the clash, was
  not inserted and can be claimed.
\<close>

theorem try_lock_leaves_partial_claim:
  "DatabaseMutex_try_lock ''p'' [''A'', ''B'', ''C''] w_clash =
     (Inr False,
      w_clash\<lparr>rows := rows w_clash @
                 [\<lparr>path = ''A'', processor = ''p'', pid = 42, time = 5000000\<rparr>]\<rparr>,
      [Attempt]) \<and>
   rows w_third = rows (world_of (DatabaseMutex_try_lock ''p'' [''A'', ''B'', ''C''] w_clash)) \<and>
   result_of (DatabaseMutex_try_lock ''p'' [''A''] w_third) = Inr False \<and>
   result_of (DatabaseMutex_try_lock ''p'' [''C''] w_third) = Inr True"
proof -
  have p: "try_lock_perform ''p'' [''A'', ''B'', ''C''] w_clash =
      (Inr False,
       w_clash\<lparr>rows := rows w_clash @
                  [\<lparr>path = ''A'', processor = ''p'', pid = 42, time = 5000000\<rparr>]\<rparr>)"
    by (simp add: try_lock_perform_def conn_execute_def w_clash_def new_record_def key_def)
  have f: "fst (try_lock_perform ''p'' [''A'', ''B'', ''C''] w_clash) \<noteq> Inl OperationalError"
    by (simp add: p)
  have a: "DatabaseMutex_try_lock ''p'' [''A'', ''B'', ''C''] w_clash =
      (Inr False,
       w_clash\<lparr>rows := rows w_clash @
                  [\<lparr>path = ''A'', processor = ''p'', pid = 42, time = 5000000\<rparr>]\<rparr>,
       [Attempt])"
    unfolding DatabaseMutex_try_lock_def
      run_db_operation_free [of "try_lock_perform ''p'' [''A'', ''B'', ''C'']" w_clash, OF f]
    by (simp add: p)
  have r: "rows w_third =
      rows (world_of (DatabaseMutex_try_lock ''p'' [''A'', ''B'', ''C''] w_clash))"
    unfolding a by (simp add: world_of_def w_third_def w_clash_def)
  have l: "\<not> 10 \<le> leading_busy w_third"
    by (simp add: leading_busy_def w_third_def)
  have va: "violates ''p'' [''A''] (rows w_third)"
    by (simp add: violates_def w_third_def key_def)
  have vc: "\<not> violates ''p'' [''C''] (rows w_third)"
    by (simp add: violates_def w_third_def key_def)
  have ta: "result_of (DatabaseMutex_try_lock ''p'' [''A''] w_third) = Inr False"
    using try_lock_outcome [of w_third "''p''" "[''A'']"] l va by simp
  have tc: "result_of (DatabaseMutex_try_lock ''p'' [''C''] w_third) = Inr True"
    using try_lock_outcome [of w_third "''p''" "[''C'']"] l vc by simp
  show ?thesis using a r ta tc by blast
qed

subsection \<open>C2: the backoff bound of the retry helper\<close>

text \<open>
  C2 as stated: an operation that always raises the transient error is attempted exactly
  9 times. The loop gives up when \<open>backoff > 8\<close>, that is at \<open>backoff = 9\<close>, after the
  attempts at \<open>backoff = 0, \<dots>, 9\<close>: the operation is called 10 times, not 9.
\<close>

theorem run_db_operation_nine_attempts_counterexample:
  "fst (always_raises w_empty) = Inl OperationalError \<and>
   attempts (trace_of (run_db_operation always_raises w_empty)) \<noteq> 9"
proof -
  have a: "\<And>w. fst (always_raises w) = Inl OperationalError"
    by (simp add: always_raises_def)
  have "snd (snd (run_db_loop always_raises 0 w_empty)) =
       concat (map (\<lambda>k. [Attempt, Sleep (backoff_delay k)]) [0..<9]) @ [Attempt]"
    using always_fail_loop [of always_raises 0 w_empty, OF a] by simp
  then have "attempts (trace_of (run_db_operation always_raises w_empty)) = 10"
    unfolding trace_of_def run_db_operation_def by (simp only: attempts_backoff_trace) simp
  then show ?thesis using a by simp
qed

text \<open>
  C2, amended: for an operation that always raises the transient error,
  \<open>run_db_operation\<close> calls it exactly 10 times (the first call and 9 retries), sleeps
  between two consecutive calls, the sleep after the call at \<open>backoff = k\<close> lasting
  \<open>base_delay * 2 ^ k\<close> for \<open>k = 0, \<dots>, 8\<close>, and then raises the error; the nine delays
  double from one to the next and are non-decreasing.
\<close>

theorem run_db_operation_backoff_bound:
  assumes "\<forall>w. fst (operation w) = Inl OperationalError"
  shows "result_of (run_db_operation operation w) = Inl OperationalError \<and>
         trace_of (run_db_operation operation w) =
           concat (map (\<lambda>k. [Attempt, Sleep (base_delay * 2 ^ k)]) [0..<9]) @ [Attempt] \<and>
         attempts (trace_of (run_db_operation operation w)) = 10 \<and>
         delays (trace_of (run_db_operation operation w)) = map (\<lambda>k. base_delay * 2 ^ k) [0..<9] \<and>
         sorted (delays (trace_of (run_db_operation operation w)))"
proof -
  have a: "\<And>w. fst (operation w) = Inl OperationalError" using assms by simp
  have bd: "backoff_delay = (\<lambda>k. base_delay * 2 ^ k)"
    by (rule ext) (simp add: backoff_delay_def)
  have l: "fst (run_db_loop operation 0 w) = Inl OperationalError \<and>
     snd (snd (run_db_loop operation 0 w)) =
       concat (map (\<lambda>k. [Attempt, Sleep (backoff_delay k)]) [0..<9]) @ [Attempt]"
    by (rule always_fail_loop [of operation 0 w, OF a]) simp
  have r: "result_of (run_db_operation operation w) = Inl OperationalError"
    using l by (simp add: result_of_def run_db_operation_def)
  have tr: "trace_of (run_db_operation operation w) =
      concat (map (\<lambda>k. [Attempt, Sleep (backoff_delay k)]) [0..<9]) @ [Attempt]"
    using l by (simp add: trace_of_def run_db_operation_def)
  have at: "attempts (trace_of (run_db_operation operation w)) = 10"
    unfolding tr attempts_backoff_trace by simp
  have de: "delays (trace_of (run_db_operation operation w)) = map backoff_delay [0..<9]"
    unfolding tr delays_backoff_trace by simp
  have so: "sorted (delays (trace_of (run_db_operation operation w)))"
    unfolding de by (rule sorted_backoff_delays)
  show ?thesis using r tr at de so unfolding bd by blast
qed

theorem run_db_operation_backoff_bound_witness:
  "(\<forall>w. fst (always_raises w) = Inl OperationalError) \<and>
   result_of (run_db_operation always_raises w_empty) = Inl OperationalError \<and>
   attempts (trace_of (run_db_operation always_raises w_empty)) = 10 \<and>
   delays (trace_of (run_db_operation always_raises w_empty)) =
     [100000, 200000, 400000, 800000, 1600000, 3200000, 6400000, 12800000, 25600000]"
proof -
  have h: "\<forall>w. fst (always_raises w) = Inl OperationalError"
    by (simp add: always_raises_def)
  have u: "[0..<9] = [0, 1, 2, 3, 4, 5, 6, 7, 8]" by (simp add: upt_conv_Cons)
  have m: "map (\<lambda>k. base_delay * 2 ^ k) [0, 1, 2, 3, 4, 5, 6, 7, 8] =
     [100000, 200000, 400000, 800000, 1600000, 3200000, 6400000, 12800000, 25600000]"
    by (simp add: base_delay_def)
  from run_db_operation_backoff_bound [OF h, of w_empty]
  have "result_of (run_db_operation always_raises w_empty) = Inl OperationalError"
    and "attempts (trace_of (run_db_operation always_raises w_empty)) = 10"
    and "delays (trace_of (run_db_operation always_raises w_empty)) =
           map (\<lambda>k. base_delay * 2 ^ k) [0..<9]"
    by blast+
  then show ?thesis using h unfolding u m by blast
qed

subsection \<open>C3: the operations that the three classes expose\<close>

text \<open>
  C3 as stated: each of the three classes exposes \<open>try_lock\<close>, \<open>unlock\<close> and \<open>lock\<close>.
  \<open>FileMutex\<close> defines \<open>lock\<close> only: calling \<open>try_lock\<close> or \<open>unlock\<close> on a \<open>FileMutex\<close>
  raises \<open>AttributeError\<close> and does nothing.
\<close>

theorem file_mutex_try_lock_counterexample:
  "call_try_lock FileMutex ''p'' [''A''] w_empty = (Inl (AttributeError ''try_lock''), w_empty) \<and>
   call_unlock FileMutex ''p'' [''A''] w_empty = (Inl (AttributeError ''unlock''), w_empty)"
  by (simp add: call_try_lock_def call_unlock_def)

text \<open>
  C3, amended: \<open>DatabaseMutex\<close> and \<open>DummyMutex\<close> expose all three operations: \<open>try_lock\<close>
  and \<open>unlock\<close> called on them end with a value or with the store's transient error,
  never with \<open>AttributeError\<close>. \<open>FileMutex\<close> exposes the scoped \<open>lock\<close> only: \<open>try_lock\<close>
  and \<open>unlock\<close> called on it raise \<open>AttributeError\<close> and leave everything as it is.
  \<open>lock\<close> called on any of the three runs the \<open>lock\<close> of that class, and raises no
  \<open>AttributeError\<close> unless the body or the library does. The three are not
  interchangeable, also not for a caller that uses \<open>lock\<close> alone: for a path list that is
  not a single path \<open>FileMutex.lock\<close> raises \<open>RuntimeError\<close> without entering the body,
  where \<open>DummyMutex.lock\<close> enters it with \<open>True\<close>.
\<close>

theorem provider_operations:
  "call_try_lock FileMutex proc paths w = (Inl (AttributeError ''try_lock''), w) \<and>
   call_unlock FileMutex proc paths w = (Inl (AttributeError ''unlock''), w) \<and>
   (c \<noteq> FileMutex \<longrightarrow>
      fst (call_try_lock c proc paths w) \<in> {Inr True, Inr False, Inl OperationalError} \<and>
      fst (call_unlock c proc paths w) \<in> {Inr (), Inl OperationalError}) \<and>
   call_lock acquire release DatabaseMutex proc paths body w =
     drop_trace (DatabaseMutex_lock proc paths body w) \<and>
   call_lock acquire release FileMutex proc paths body w =
     drop_trace (FileMutex_lock acquire release proc paths body w) \<and>
   call_lock acquire release DummyMutex proc paths body w = DummyMutex_lock proc paths body w \<and>
   ((\<forall>flag s n. fst (body flag s) \<noteq> Inl (AttributeError n)) \<and>
    (\<forall>pth s n. fst (acquire pth s) \<noteq> Inl (AttributeError n)) \<longrightarrow>
      (\<forall>n. fst (call_lock acquire release c proc paths body w) \<noteq> Inl (AttributeError n))) \<and>
   (length paths \<noteq> 1 \<longrightarrow>
      call_lock acquire release FileMutex proc paths body w =
        (Inl (RuntimeError chunked_locking_msg), w) \<and>
      call_lock acquire release DummyMutex proc paths body w = body True w)"
proof -
  have a: "call_try_lock FileMutex proc paths w = (Inl (AttributeError ''try_lock''), w)"
    "call_unlock FileMutex proc paths w = (Inl (AttributeError ''unlock''), w)"
    by (simp_all add: call_try_lock_def call_unlock_def)
  have b: "fst (call_try_lock c proc paths w) \<in> {Inr True, Inr False, Inl OperationalError} \<and>
      fst (call_unlock c proc paths w) \<in> {Inr (), Inl OperationalError}"
    if "c \<noteq> FileMutex"
  proof (cases c)
    case DatabaseMutex
    have "result_of (DatabaseMutex_try_lock proc paths w)
        \<in> {Inr True, Inr False, Inl OperationalError}"
      using try_lock_outcome [of w proc paths] by (simp split: if_splits)
    moreover have "result_of (DatabaseMutex_unlock proc paths w) \<in> {Inr (), Inl OperationalError}"
      using unlock_outcome [of w proc paths] by (simp split: if_splits)
    ultimately show ?thesis
      using DatabaseMutex by (simp add: call_try_lock_def call_unlock_def drop_trace_def)
  next
    case FileMutex
    with that show ?thesis by simp
  next
    case DummyMutex
    then show ?thesis
      by (simp add: call_try_lock_def call_unlock_def DummyMutex_try_lock_def
            DummyMutex_unlock_def)
  qed
  have l: "call_lock acquire release DatabaseMutex proc paths body w =
      drop_trace (DatabaseMutex_lock proc paths body w)"
    "call_lock acquire release FileMutex proc paths body w =
      drop_trace (FileMutex_lock acquire release proc paths body w)"
    "call_lock acquire release DummyMutex proc paths body w = DummyMutex_lock proc paths body w"
    by (simp_all add: call_lock_def)
  have n: "fst (call_lock acquire release c proc paths body w) \<noteq> Inl (AttributeError n)"
    if bd: "\<forall>flag s n. fst (body flag s) \<noteq> Inl (AttributeError n)"
      and ac: "\<forall>pth s n. fst (acquire pth s) \<noteq> Inl (AttributeError n)" for n
  proof (cases c)
    case DatabaseMutex
    from database_lock_result [of proc paths body w]
    show ?thesis
      using bd DatabaseMutex by (auto simp: call_lock_def drop_trace_def)
  next
    case FileMutex
    from file_lock_result [of acquire release proc paths body w]
    show ?thesis
      using bd ac FileMutex by (auto simp: call_lock_def drop_trace_def)
  next
    case DummyMutex
    then show ?thesis using bd by (simp add: call_lock_def DummyMutex_lock_def)
  qed
  have d: "call_lock acquire release FileMutex proc paths body w =
        (Inl (RuntimeError chunked_locking_msg), w) \<and>
      call_lock acquire release DummyMutex proc paths body w = body True w"
    if "length paths \<noteq> 1"
    using that
    by (simp add: call_lock_def drop_trace_def FileMutex_lock_def DummyMutex_lock_def
          result_of_def world_of_def)
  show ?thesis using a b l n d by blast
qed

theorem provider_operations_witness:
  "DummyMutex \<noteq> FileMutex \<and> DatabaseMutex \<noteq> FileMutex \<and> length [''A'', ''B''] \<noteq> 1 \<and>
   call_try_lock DummyMutex ''p'' [''A'', ''B''] w_two = (Inr True, w_two) \<and>
   fst (call_try_lock DatabaseMutex ''p'' [''A'', ''B''] w_two) = Inr False \<and>
   fst (call_unlock DatabaseMutex ''p'' [''A'', ''B''] w_two) = Inr () \<and>
   call_try_lock FileMutex ''p'' [''A'', ''B''] w_two = (Inl (AttributeError ''try_lock''), w_two) \<and>
   call_lock granting_acquire idle_release FileMutex ''p'' [''A'', ''B''] returning_body w_two =
     (Inl (RuntimeError ''FileMutex does not support chunked locking''), w_two) \<and>
   call_lock granting_acquire idle_release DummyMutex ''p'' [''A'', ''B''] returning_body w_two =
     (Inr True, w_two) \<and>
   fst (call_lock granting_acquire idle_release FileMutex ''p'' [''A''] returning_body w_two) \<noteq>
     Inl (AttributeError ''lock'')"
proof -
  have h: "length [''A'', ''B''] \<noteq> 1" by simp
  have bd: "\<forall>flag (s :: world) n. fst (returning_body flag s) \<noteq> Inl (AttributeError n)"
    by (simp add: returning_body_def)
  have ac: "\<forall>pth (s :: world) n. fst (granting_acquire pth s) \<noteq> Inl (AttributeError n)"
    by (simp add: granting_acquire_def)
  have l: "\<not> 10 \<le> leading_busy w_two"
    by (simp add: leading_busy_def w_two_def)
  have v: "violates ''p'' [''A'', ''B''] (rows w_two)"
    by (simp add: violates_def w_two_def key_def)
  have t: "fst (call_try_lock DatabaseMutex ''p'' [''A'', ''B''] w_two) = Inr False"
    using try_lock_outcome [of w_two "''p''" "[''A'', ''B'']"] l v
    by (simp add: call_try_lock_def drop_trace_def)
  have u: "fst (call_unlock DatabaseMutex ''p'' [''A'', ''B''] w_two) = Inr ()"
    using unlock_outcome [of w_two "''p''" "[''A'', ''B'']"] l
    by (simp add: call_unlock_def drop_trace_def)
  have dm: "call_try_lock DummyMutex ''p'' [''A'', ''B''] w_two = (Inr True, w_two)"
    by (simp add: call_try_lock_def DummyMutex_try_lock_def)
  note two = provider_operations [where c = DummyMutex and proc = "''p''"
      and paths = "[''A'', ''B'']" and w = w_two and acquire = granting_acquire
      and release = idle_release and body = returning_body]
  note one = provider_operations [where c = FileMutex and proc = "''p''"
      and paths = "[''A'']" and w = w_two and acquire = granting_acquire
      and release = idle_release and body = returning_body]
  have fm: "call_try_lock FileMutex ''p'' [''A'', ''B''] w_two =
      (Inl (AttributeError ''try_lock''), w_two)"
    using two by blast
  have lk: "call_lock granting_acquire idle_release FileMutex ''p'' [''A'', ''B''] returning_body
        w_two = (Inl (RuntimeError chunked_locking_msg), w_two) \<and>
      call_lock granting_acquire idle_release DummyMutex ''p'' [''A'', ''B''] returning_body
        w_two = returning_body True w_two"
    using two h by blast
  have na: "fst (call_lock granting_acquire idle_release FileMutex ''p'' [''A''] returning_body
        w_two) \<noteq> Inl (AttributeError ''lock'')"
    using one bd ac by blast
  show ?thesis
    using h t u dm fm lk na
    by (simp add: chunked_locking_msg_def returning_body_def)
qed

subsection \<open>C4: the scoped \<open>lock\<close> of \<open>DatabaseMutex\<close>\<close>

text \<open>
  C4: for every processor, path list and body, \<open>DatabaseMutex.lock\<close> first calls
  \<open>try_lock\<close>. When that returns a flag, the body is run with this flag, and whatever the
  body does, return a value or raise an exception, \<open>unlock\<close> is called afterwards if and
  only if the flag is \<open>True\<close>: the calls are \<open>try_lock\<close>, the yield, and \<open>unlock\<close> exactly
  when acquired; the world left is that of \<open>unlock\<close> when acquired and that of the body
  otherwise; the outcome is that of the body unless \<open>unlock\<close> itself raises. When
  \<open>try_lock\<close> raises, nothing is yielded and \<open>unlock\<close> is not called.
\<close>

theorem lock_unlocks_iff_acquired:
  "case DatabaseMutex_try_lock proc paths w of
     (Inl e, w1, tr1) \<Rightarrow>
       DatabaseMutex_lock proc paths body w = (Inl e, w1, [Call_try_lock proc paths])
   | (Inr success, w1, tr1) \<Rightarrow>
       (case body success w1 of
          (outcome, w2) \<Rightarrow>
            trace_of (DatabaseMutex_lock proc paths body w) =
              [Call_try_lock proc paths, Yield success] @
              (if success then [Call_unlock proc paths] else []) \<and>
            (Call_unlock proc paths \<in> set (trace_of (DatabaseMutex_lock proc paths body w))
               \<longleftrightarrow> success) \<and>
            world_of (DatabaseMutex_lock proc paths body w) =
              (if success then world_of (DatabaseMutex_unlock proc paths w2) else w2) \<and>
            result_of (DatabaseMutex_lock proc paths body w) =
              (if success
               then (case result_of (DatabaseMutex_unlock proc paths w2) of
                       Inl e \<Rightarrow> Inl e | Inr u \<Rightarrow> outcome)
               else outcome))"
proof (cases "DatabaseMutex_try_lock proc paths w")
  case (fields res w1 tr1)
  show ?thesis
  proof (cases res)
    case (Inl e)
    with fields show ?thesis by (simp add: DatabaseMutex_lock_def)
  next
    case (Inr success)
    obtain outcome w2 where b: "body success w1 = (outcome, w2)"
      by (cases "body success w1") auto
    obtain r3 w3 tr3 where u: "DatabaseMutex_unlock proc paths w2 = (r3, w3, tr3)"
      by (cases "DatabaseMutex_unlock proc paths w2") auto
    show ?thesis
    proof (cases success)
      case True
      with fields Inr b u show ?thesis
        by (cases r3)
           (simp_all add: DatabaseMutex_lock_def trace_of_def world_of_def result_of_def)
    next
      case False
      with fields Inr b show ?thesis
        by (simp add: DatabaseMutex_lock_def trace_of_def world_of_def result_of_def)
    qed
  qed
qed

theorem lock_unlocks_iff_acquired_witness:
  "DatabaseMutex_lock ''p'' [''A''] raising_body w_held =
     (Inl (OtherError ''boom''), w_released,
      [Call_try_lock ''p'' [''A''], Yield True, Call_unlock ''p'' [''A'']]) \<and>
   DatabaseMutex_lock ''p'' [''B'', ''C''] raising_body w_two =
     (Inl (OtherError ''boom''), w_two, [Call_try_lock ''p'' [''B'', ''C''], Yield False]) \<and>
   DatabaseMutex_lock ''p'' [''B'', ''C''] returning_body w_two =
     (Inr False, w_two, [Call_try_lock ''p'' [''B'', ''C''], Yield False])"
proof -
  have t: "x = (result_of x, world_of x, trace_of x)" for x :: "(exn + bool) \<times> world \<times> call list"
    by (simp add: result_of_def world_of_def trace_of_def)
  have a: "DatabaseMutex_lock ''p'' [''A''] raising_body w_held =
     (Inl (OtherError ''boom''), w_released,
      [Call_try_lock ''p'' [''A''], Yield True, Call_unlock ''p'' [''A'']])"
    using lock_unlocks_iff_acquired [where proc = "''p''" and paths = "[''A'']" and w = w_held
        and body = raising_body]
    by (subst t) (simp add: try_lock_on_w_held unlock_on_w_retried raising_body_def
          result_of_def world_of_def)
  have b: "DatabaseMutex_lock ''p'' [''B'', ''C''] raising_body w_two =
     (Inl (OtherError ''boom''), w_two, [Call_try_lock ''p'' [''B'', ''C''], Yield False])"
    using lock_unlocks_iff_acquired [where proc = "''p''" and paths = "[''B'', ''C'']" and w = w_two
        and body = raising_body]
    by (subst t) (simp add: try_lock_on_w_two raising_body_def)
  have c: "DatabaseMutex_lock ''p'' [''B'', ''C''] returning_body w_two =
     (Inr False, w_two, [Call_try_lock ''p'' [''B'', ''C''], Yield False])"
    using lock_unlocks_iff_acquired [where proc = "''p''" and paths = "[''B'', ''C'']" and w = w_two
        and body = returning_body]
    by (subst t) (simp add: try_lock_on_w_two returning_body_def)
  show ?thesis using a b c by blast
qed

subsection \<open>C5: \<open>unlock\<close> deletes the caller's own records only\<close>

text \<open>
  C5: \<open>DatabaseMutex.unlock(processor, paths)\<close> deletes exactly the records whose
  processor is the argument, whose path is among \<open>paths\<close> and whose pid is the pid of the
  calling process, and keeps every other record as it is and in place (when the store
  stays busy through all ten attempts it raises the transient error and deletes nothing).
  In either case the records of every other pid are the same before and after: a process
  cannot release a lock that another process inserted.
\<close>

theorem unlock_deletes_own_records:
  "(if 10 \<le> leading_busy w
    then result_of (DatabaseMutex_unlock proc paths w) = Inl OperationalError \<and>
         rows (world_of (DatabaseMutex_unlock proc paths w)) = rows w
    else result_of (DatabaseMutex_unlock proc paths w) = Inr () \<and>
         rows (world_of (DatabaseMutex_unlock proc paths w)) =
           filter (\<lambda>r. \<not> (processor r = proc \<and> path r \<in> set paths \<and> pid r = os_pid w))
             (rows w)) \<and>
   filter (\<lambda>r. pid r \<noteq> os_pid w) (rows (world_of (DatabaseMutex_unlock proc paths w))) =
     filter (\<lambda>r. pid r \<noteq> os_pid w) (rows w)"
proof -
  let ?r = "DatabaseMutex_unlock proc paths w"
  have f: "filter (\<lambda>r. pid r \<noteq> os_pid w)
        (filter (\<lambda>r. \<not> unlock_matches proc paths (os_pid w) r) (rows w)) =
      filter (\<lambda>r. pid r \<noteq> os_pid w) (rows w)"
    unfolding filter_filter by (rule filter_cong) (auto simp: unlock_matches_def)
  show ?thesis
  proof (cases "10 \<le> leading_busy w")
    case True
    with unlock_outcome [of w proc paths] show ?thesis by simp
  next
    case False
    with unlock_outcome [of w proc paths]
    have res: "result_of ?r = Inr ()"
      and rws: "rows (world_of ?r) =
        filter (\<lambda>r. \<not> unlock_matches proc paths (os_pid w) r) (rows w)"
      by simp_all
    have other: "filter (\<lambda>r. pid r \<noteq> os_pid w) (rows (world_of ?r)) =
        filter (\<lambda>r. pid r \<noteq> os_pid w) (rows w)"
      unfolding rws by (rule f)
    have own: "rows (world_of ?r) =
        filter (\<lambda>r. \<not> (processor r = proc \<and> path r \<in> set paths \<and> pid r = os_pid w)) (rows w)"
      unfolding rws unlock_matches_def ..
    show ?thesis using False res own other by simp
  qed
qed

theorem unlock_deletes_own_records_witness:
  "result_of (DatabaseMutex_unlock ''p'' [''A'', ''B''] w_two) = Inr () \<and>
   rows (world_of (DatabaseMutex_unlock ''p'' [''A'', ''B''] w_two)) =
     [\<lparr>path = ''B'', processor = ''p'', pid = 7, time = 1000000\<rparr>]"
proof -
  have l: "\<not> 10 \<le> leading_busy w_two"
    by (simp add: leading_busy_def w_two_def)
  have r: "filter (\<lambda>r. \<not> (processor r = ''p'' \<and> path r \<in> set [''A'', ''B''] \<and> pid r = os_pid w_two))
       (rows w_two) = [\<lparr>path = ''B'', processor = ''p'', pid = 7, time = 1000000\<rparr>]"
    by (simp add: w_two_def)
  show ?thesis
    using unlock_deletes_own_records [of w_two "''p''" "[''A'', ''B'']"] l
    unfolding r by simp
qed

subsection \<open>C6: a uniqueness failure is not retried\<close>

text \<open>
  C6: inside one attempt of \<open>try_lock\<close> the \<open>IntegrityError\<close> of the store is caught and
  becomes the value \<open>False\<close>, so the attempt never ends with that exception; on an
  available store a violating claim returns \<open>False\<close> after exactly one attempt and without
  a sleep, and in general the number of attempts of \<open>try_lock\<close> depends on the transient
  failures of the store alone. For the helper itself: an operation that ends in any other
  way than with \<open>OperationalError\<close> (a value, or any other exception) is attempted once and
  its outcome is passed on; only \<open>OperationalError\<close> makes the helper sleep and retry.
\<close>

theorem integrity_failure_not_retried:
  assumes "paths \<noteq> []"
  shows "fst (try_lock_perform proc paths w) \<noteq> Inl IntegrityError \<and>
     (\<not> store_busy w \<and> violates proc paths (rows w) \<longrightarrow>
        DatabaseMutex_try_lock proc paths w =
          (Inr False,
           w\<lparr>busy := tl (busy w),
             rows := snd (insert_rows (map (new_record proc (os_pid w) (clock w)) paths)
                            (rows w))\<rparr>,
           [Attempt])) \<and>
     attempts (trace_of (DatabaseMutex_try_lock proc paths w)) = min (leading_busy w) 9 + 1 \<and>
     (fst (operation w) \<noteq> Inl OperationalError \<longrightarrow>
        run_db_operation operation w = (fst (operation w), snd (operation w), [Attempt])) \<and>
     (fst (operation w) = Inl OperationalError \<longrightarrow>
        take 2 (trace_of (run_db_operation operation w)) = [Attempt, Sleep base_delay])"
proof -
  have a: "fst (try_lock_perform proc paths w) \<noteq> Inl IntegrityError"
    by (rule try_lock_perform_not_integrity)
  have b: "DatabaseMutex_try_lock proc paths w =
      (Inr False,
       w\<lparr>busy := tl (busy w),
         rows := snd (insert_rows (map (new_record proc (os_pid w) (clock w)) paths)
                        (rows w))\<rparr>,
       [Attempt])"
    if free: "\<not> store_busy w" and v: "violates proc paths (rows w)"
  proof -
    have p: "try_lock_perform proc paths w =
        (Inr False,
         w\<lparr>busy := tl (busy w),
           rows := snd (insert_rows (map (new_record proc (os_pid w) (clock w)) paths)
                          (rows w))\<rparr>)"
      using free v by (simp add: try_lock_perform_free)
    have f: "fst (try_lock_perform proc paths w) \<noteq> Inl OperationalError"
      by (simp add: p)
    show ?thesis
      unfolding DatabaseMutex_try_lock_def
        run_db_operation_free [of "try_lock_perform proc paths" w, OF f]
      by (simp add: p)
  qed
  have c: "attempts (trace_of (DatabaseMutex_try_lock proc paths w)) = min (leading_busy w) 9 + 1"
    by (rule try_lock_attempts)
  have d: "run_db_operation operation w = (fst (operation w), snd (operation w), [Attempt])"
    if "fst (operation w) \<noteq> Inl OperationalError"
    using that by (rule run_db_operation_free)
  have e: "take 2 (trace_of (run_db_operation operation w)) = [Attempt, Sleep base_delay]"
    if "fst (operation w) = Inl OperationalError"
    using that by (rule run_db_operation_first_retry)
  show ?thesis using a b c d e by blast
qed

theorem integrity_failure_not_retried_witness:
  "[''B'', ''C''] \<noteq> [] \<and> \<not> store_busy w_two \<and> violates ''p'' [''B'', ''C''] (rows w_two) \<and>
   DatabaseMutex_try_lock ''p'' [''B'', ''C''] w_two = (Inr False, w_two, [Attempt]) \<and>
   fst (always_raises w_two) = Inl OperationalError \<and>
   take 2 (trace_of (run_db_operation always_raises w_two)) = [Attempt, Sleep 100000] \<and>
   fst (try_lock_perform ''p'' [''B'', ''C''] w_two) \<noteq> Inl OperationalError \<and>
   run_db_operation (try_lock_perform ''p'' [''B'', ''C'']) w_two = (Inr False, w_two, [Attempt])"
proof -
  have h: "[''B'', ''C''] \<noteq> []" by simp
  have f: "\<not> store_busy w_two" by (simp add: store_busy_def w_two_def)
  have v: "violates ''p'' [''B'', ''C''] (rows w_two)"
    by (simp add: violates_def w_two_def key_def)
  have t: "w_two\<lparr>busy := tl (busy w_two),
        rows := snd (insert_rows (map (new_record ''p'' (os_pid w_two) (clock w_two))
                                    [''B'', ''C'']) (rows w_two))\<rparr> = w_two"
    by (simp add: w_two_def new_record_def key_def)
  have r: "fst (always_raises w_two) = Inl OperationalError" by (simp add: always_raises_def)
  have p: "try_lock_perform ''p'' [''B'', ''C''] w_two = (Inr False, w_two)"
    using f v t by (simp add: try_lock_perform_free)
  show ?thesis
    using integrity_failure_not_retried [OF h, of "''p''" w_two always_raises]
      integrity_failure_not_retried [OF h, of "''p''" w_two "try_lock_perform ''p'' [''B'', ''C'']"]
      h f v t r p
    by (simp add: base_delay_def)
qed

subsection \<open>C7: \<open>try_lock\<close> followed by \<open>unlock\<close>\<close>

text \<open>
  C7: when \<open>try_lock(p, S)\<close> returns \<open>True\<close> and the same process then runs
  \<open>unlock(p, S)\<close> to its end, the table is the one before the two calls, row for row;
  so with the same clock and the same availability of the store, a \<open>try_lock\<close> of any
  processor for any paths gives the same result, world and attempts as it would have
  given before.
\<close>

theorem try_lock_unlock_round_trip:
  assumes "paths \<noteq> []"
      and "DatabaseMutex_try_lock proc paths w = (Inr True, w1, tr1)"
      and "DatabaseMutex_unlock proc paths w1 = (Inr (), w2, tr2)"
  shows "rows w2 = rows w \<and> os_pid w2 = os_pid w \<and>
         DatabaseMutex_try_lock q S (w2\<lparr>busy := b, clock := c\<rparr>) =
           DatabaseMutex_try_lock q S (w\<lparr>busy := b, clock := c\<rparr>)"
proof -
  have r1: "result_of (DatabaseMutex_try_lock proc paths w) = Inr True"
    and w1: "world_of (DatabaseMutex_try_lock proc paths w) = w1"
    using assms(2) by (simp_all add: result_of_def world_of_def)
  have r2: "result_of (DatabaseMutex_unlock proc paths w1) = Inr ()"
    and w2: "world_of (DatabaseMutex_unlock proc paths w1) = w2"
    using assms(3) by (simp_all add: result_of_def world_of_def)
  from try_lock_outcome [of w proc paths] r1
  have nv: "\<not> violates proc paths (rows w)"
    and rows1: "rows w1 = rows w @ map (new_record proc (os_pid w) (clock w1)) paths"
    and pid1: "os_pid w1 = os_pid w"
    unfolding w1 by (simp_all split: if_splits)
  from unlock_outcome [of w1 proc paths] r2
  have rows2: "rows w2 = filter (\<lambda>r. \<not> unlock_matches proc paths (os_pid w1) r) (rows w1)"
    and pid2: "os_pid w2 = os_pid w1"
    unfolding w2 by (simp_all split: if_splits)
  have rows: "rows w2 = rows w"
    unfolding rows2 rows1 pid1
    by (simp add: filter_unlock_unviolated [OF nv] filter_unlock_new)
  have pid: "os_pid w2 = os_pid w" using pid1 pid2 by simp
  have same: "w2\<lparr>busy := b, clock := c\<rparr> = w\<lparr>busy := b, clock := c\<rparr>"
    using rows pid by simp
  show ?thesis unfolding same using rows pid by simp
qed

theorem try_lock_unlock_round_trip_witness:
  "[''A''] \<noteq> [] \<and>
   DatabaseMutex_try_lock ''p'' [''A''] w_held =
     (Inr True, w_retried, [Attempt, Sleep 100000, Attempt, Sleep 200000, Attempt]) \<and>
   DatabaseMutex_unlock ''p'' [''A''] w_retried = (Inr (), w_released, [Attempt]) \<and>
   rows w_released = rows w_held \<and>
   DatabaseMutex_try_lock ''q'' [''A'', ''B''] (w_released\<lparr>busy := [True], clock := 7\<rparr>) =
     DatabaseMutex_try_lock ''q'' [''A'', ''B''] (w_held\<lparr>busy := [True], clock := 7\<rparr>)"
proof -
  have h: "[''A''] \<noteq> []" by simp
  show ?thesis
    using try_lock_unlock_round_trip [OF h try_lock_on_w_held unlock_on_w_retried,
        where q = "''q''" and S = "[''A'', ''B'']" and b = "[True]" and c = 7]
      h try_lock_on_w_held unlock_on_w_retried
    by simp
qed

subsection \<open>C8: the sweep \<open>clear_locks\<close>\<close>

text \<open>
  C8: \<open>DatabaseMutex.clear_locks(age)\<close> with \<open>age = 0\<close> deletes every record, whoever
  owns it and whatever its timestamp; with another \<open>age\<close> it deletes exactly the records
  whose timestamp is earlier than the current time minus \<open>age\<close> seconds and keeps the
  others (when the store stays busy through all ten attempts it raises the transient
  error and deletes nothing). After a \<open>clear_locks(0)\<close> that returned, a second
  \<open>clear_locks(0)\<close> leaves the table empty, and it returns unless the store is busy
  through all its attempts.
\<close>

theorem clear_locks_sweep:
  "(if 10 \<le> leading_busy w
    then result_of (DatabaseMutex_clear_locks age w) = Inl OperationalError \<and>
         rows (world_of (DatabaseMutex_clear_locks age w)) = rows w
    else result_of (DatabaseMutex_clear_locks age w) = Inr () \<and>
         rows (world_of (DatabaseMutex_clear_locks age w)) =
           (if age = 0 then []
            else filter (\<lambda>r. \<not> time r <
                     clock (world_of (DatabaseMutex_clear_locks age w)) - age * 1000000) (rows w))) \<and>
   (result_of (DatabaseMutex_clear_locks 0 w) = Inr () \<longrightarrow>
      rows (world_of (DatabaseMutex_clear_locks 0 (world_of (DatabaseMutex_clear_locks 0 w)))) = [] \<and>
      (result_of (DatabaseMutex_clear_locks 0 (world_of (DatabaseMutex_clear_locks 0 w))) = Inr () \<or>
       10 \<le> leading_busy (world_of (DatabaseMutex_clear_locks 0 w))))"
proof -
  let ?w1 = "world_of (DatabaseMutex_clear_locks 0 w)"
  have first: "if 10 \<le> leading_busy w
    then result_of (DatabaseMutex_clear_locks age w) = Inl OperationalError \<and>
         rows (world_of (DatabaseMutex_clear_locks age w)) = rows w
    else result_of (DatabaseMutex_clear_locks age w) = Inr () \<and>
         rows (world_of (DatabaseMutex_clear_locks age w)) =
           (if age = 0 then []
            else filter (\<lambda>r. \<not> time r <
                     clock (world_of (DatabaseMutex_clear_locks age w)) - age * 1000000) (rows w))"
    using clear_locks_outcome [of w age] by (simp add: older_than_def)
  have second: "rows (world_of (DatabaseMutex_clear_locks 0 ?w1)) = [] \<and>
      (result_of (DatabaseMutex_clear_locks 0 ?w1) = Inr () \<or> 10 \<le> leading_busy ?w1)"
    if ok: "result_of (DatabaseMutex_clear_locks 0 w) = Inr ()"
  proof -
    have e: "rows ?w1 = []"
      using clear_locks_outcome [of w 0] ok by (simp split: if_splits)
    show ?thesis
      using clear_locks_outcome [of ?w1 0] e by (simp split: if_splits)
  qed
  show ?thesis using first second by blast
qed

theorem clear_locks_sweep_witness:
  "result_of (DatabaseMutex_clear_locks 0 w_two) = Inr () \<and>
   rows (world_of (DatabaseMutex_clear_locks 0 w_two)) = [] \<and>
   rows (world_of (DatabaseMutex_clear_locks 0 (world_of (DatabaseMutex_clear_locks 0 w_two)))) = [] \<and>
   rows (world_of (DatabaseMutex_clear_locks 3 w_two)) =
     [\<lparr>path = ''A'', processor = ''p'', pid = 42, time = 4000000\<rparr>]"
proof -
  have l: "\<not> 10 \<le> leading_busy w_two"
    by (simp add: leading_busy_def w_two_def)
  have f: "fst (clear_locks_perform 3 w_two) \<noteq> Inl OperationalError"
    by (simp add: clear_locks_perform_def conn_execute_def w_two_def)
  have c: "clock (world_of (DatabaseMutex_clear_locks 3 w_two)) = 5000000"
    unfolding DatabaseMutex_clear_locks_def
      run_db_operation_free [of "clear_locks_perform 3" w_two, OF f]
    by (simp add: world_of_def clear_locks_perform_def conn_execute_def w_two_def)
  have r: "filter (\<lambda>r. \<not> time r < 5000000 - 3 * 1000000) (rows w_two) =
      [\<lparr>path = ''A'', processor = ''p'', pid = 42, time = 4000000\<rparr>]"
    by (simp add: w_two_def)
  show ?thesis
    using clear_locks_sweep [of w_two 0] clear_locks_sweep [of w_two 3] l
    unfolding c r by simp
qed

subsection \<open>C9: \<open>FileMutex.lock\<close> accepts one path only\<close>

text \<open>
  C9: for every processor and every path list whose length is not 1, entering
  \<open>FileMutex.lock\<close> raises the \<open>RuntimeError\<close> at once: the advisory lock is not
  attempted (no call of \<open>acquire\<close>, the state of the operating system is unchanged) and
  the body is not entered, whatever the library and the body would do.
\<close>

theorem file_mutex_rejects_chunks:
  assumes "length paths \<noteq> 1"
  shows "FileMutex_lock acquire release proc paths body os =
           (Inl (RuntimeError chunked_locking_msg), os, [])"
  using assms by (simp add: FileMutex_lock_def)

theorem file_mutex_rejects_chunks_witness:
  "length [''a'', ''b''] \<noteq> 1 \<and>
   FileMutex_lock portalocker_acquire portalocker_release ''p'' [''a'', ''b''] returning_body
       [''a'' \<mapsto> Free, ''b'' \<mapsto> Free] =
     (Inl (RuntimeError ''FileMutex does not support chunked locking''),
      [''a'' \<mapsto> Free, ''b'' \<mapsto> Free], []) \<and>
   FileMutex_lock portalocker_acquire portalocker_release ''p'' [] returning_body Map.empty =
     (Inl (RuntimeError ''FileMutex does not support chunked locking''), Map.empty, [])"
proof -
  have h: "length [''a'', ''b''] \<noteq> 1" by simp
  have e: "length ([] :: string list) \<noteq> 1" by simp
  show ?thesis
    using file_mutex_rejects_chunks [OF h, where acquire = portalocker_acquire
        and release = portalocker_release and proc = "''p''" and body = returning_body
        and os = "[''a'' \<mapsto> Free, ''b'' \<mapsto> Free]"]
      file_mutex_rejects_chunks [OF e, where acquire = portalocker_acquire
        and release = portalocker_release and proc = "''p''" and body = returning_body
        and os = Map.empty]
      h
    by (simp add: chunked_locking_msg_def)
qed

subsection \<open>C10: when \<open>FileMutex.lock\<close> yields \<open>False\<close>\<close>

text \<open>
  C10: for a call with the single path \<open>pth\<close>, \<open>FileMutex.lock\<close> tries the advisory lock
  once. When the attempt raises \<open>AlreadyLocked\<close> or \<open>LockException\<close>, the body is entered
  with \<open>False\<close> and its outcome is the outcome of the \<open>with\<close> statement. When the attempt
  raises anything else (for instance \<open>FileNotFoundError\<close> for a path that does not exist),
  that exception propagates and the body is not entered. When the attempt succeeds, the
  body is entered with \<open>True\<close> and never with \<open>False\<close>, the lock is released after the
  body, and the outcome is the body's, except that one of the two caught exceptions
  raised by the body itself ends as the \<open>RuntimeError\<close> of \<open>contextlib\<close>. So the caller
  gets \<open>False\<close> exactly when the acquisition failed with one of the two caught exceptions.
\<close>

theorem file_mutex_yields_false:
  "case acquire pth os of
     (Inl e, os1) \<Rightarrow>
       (if e = AlreadyLocked \<or> e = LockException
        then FileMutex_lock acquire release proc [pth] body os =
               (fst (body False os1), snd (body False os1), [Os_acquire pth, Enter_body False])
        else FileMutex_lock acquire release proc [pth] body os = (Inl e, os1, [Os_acquire pth]))
   | (Inr u, os1) \<Rightarrow>
       trace_of (FileMutex_lock acquire release proc [pth] body os) =
         [Os_acquire pth, Enter_body True, Os_release pth] \<and>
       world_of (FileMutex_lock acquire release proc [pth] body os) =
         release pth (snd (body True os1)) \<and>
       result_of (FileMutex_lock acquire release proc [pth] body os) =
         (case fst (body True os1) of
            Inl e \<Rightarrow>
              if e = AlreadyLocked \<or> e = LockException
              then Inl (RuntimeError generator_msg) else Inl e
          | Inr v \<Rightarrow> Inr v)"
proof (cases "acquire pth os")
  case (Pair r os1)
  show ?thesis
  proof (cases r)
    case (Inl e)
    with Pair show ?thesis
      by (simp add: FileMutex_lock_def lock_unavailable_def split: prod.splits)
  next
    case (Inr u)
    with Pair show ?thesis
      by (simp add: FileMutex_lock_def trace_of_def world_of_def result_of_def
            lock_unavailable_def split: prod.splits sum.splits)
  qed
qed

theorem file_mutex_yields_false_witness:
  "FileMutex_lock portalocker_acquire portalocker_release ''p'' [''missing''] returning_body
       [''a'' \<mapsto> Held_elsewhere] =
     (Inl FileNotFoundError, [''a'' \<mapsto> Held_elsewhere], [Os_acquire ''missing'']) \<and>
   FileMutex_lock portalocker_acquire portalocker_release ''p'' [''a''] returning_body
       [''a'' \<mapsto> Held_elsewhere] =
     (Inr False, [''a'' \<mapsto> Held_elsewhere], [Os_acquire ''a'', Enter_body False]) \<and>
   trace_of (FileMutex_lock portalocker_acquire portalocker_release ''p'' [''a''] returning_body
       [''a'' \<mapsto> Free]) =
     [Os_acquire ''a'', Enter_body True, Os_release ''a'']"
proof -
  have m: "portalocker_acquire ''missing'' [''a'' \<mapsto> Held_elsewhere] =
      (Inl FileNotFoundError, [''a'' \<mapsto> Held_elsewhere])"
    by (simp add: portalocker_acquire_def)
  have l: "portalocker_acquire ''a'' [''a'' \<mapsto> Held_elsewhere] =
      (Inl AlreadyLocked, [''a'' \<mapsto> Held_elsewhere])"
    by (simp add: portalocker_acquire_def)
  have f: "portalocker_acquire ''a'' [''a'' \<mapsto> Free] = (Inr (), [''a'' \<mapsto> Held])"
    by (simp add: portalocker_acquire_def)
  show ?thesis
    using file_mutex_yields_false [where acquire = portalocker_acquire and pth = "''missing''"
        and os = "[''a'' \<mapsto> Held_elsewhere]" and release = portalocker_release
        and proc = "''p''" and body = returning_body]
      file_mutex_yields_false [where acquire = portalocker_acquire and pth = "''a''"
        and os = "[''a'' \<mapsto> Held_elsewhere]" and release = portalocker_release
        and proc = "''p''" and body = returning_body]
      file_mutex_yields_false [where acquire = portalocker_acquire and pth = "''a''"
        and os = "[''a'' \<mapsto> Free]" and release = portalocker_release
        and proc = "''p''" and body = returning_body]
    unfolding m l f by (simp add: returning_body_def)
qed

end
